theory Spec2Isabelle
  imports Complex_Main "HOL-Library.Log_Nat"
begin

section \<open>Strings and characters\<close>

text \<open>
  A Python \<^verbatim>\<open>str\<close> is a sequence of code points.  The model covers the texts whose
  code points lie in U+0000..U+00FF: a \<^typ>\<open>char\<close> is one such code point and a
  \<^typ>\<open>string\<close> is one Python string.  The character classes below are the ones
  Python's \<^verbatim>\<open>re\<close> and \<^verbatim>\<open>str\<close> use on that range.
\<close>

definition py_ord :: "char \<Rightarrow> nat" where
  "py_ord c = of_char c"

definition between :: "nat \<Rightarrow> nat \<Rightarrow> nat \<Rightarrow> bool" where
  "between lo hi n = (lo \<le> n \<and> n \<le> hi)"

text \<open>\<^verbatim>\<open>str.isspace\<close>, which is also the class \<^verbatim>\<open>\s\<close> and what \<^verbatim>\<open>str.strip()\<close> removes.\<close>

definition is_space :: "char \<Rightarrow> bool" where
  "is_space c = (let n = py_ord c in
     between 9 13 n \<or> between 28 32 n \<or> n = 133 \<or> n = 160)"

text \<open>The class \<^verbatim>\<open>\d\<close>: the decimal digits.\<close>

definition is_digit :: "char \<Rightarrow> bool" where
  "is_digit c = between 48 57 (py_ord c)"

text \<open>The class \<^verbatim>\<open>\w\<close>: alphanumeric code points and the underscore.\<close>

definition is_word :: "char \<Rightarrow> bool" where
  "is_word c = (let n = py_ord c in
     between 48 57 n \<or> between 65 90 n \<or> n = 95 \<or> between 97 122 n \<or>
     n = 170 \<or> n = 178 \<or> n = 179 \<or> n = 181 \<or> n = 185 \<or> n = 186 \<or>
     between 188 190 n \<or> between 192 214 n \<or> between 216 246 n \<or> between 248 255 n)"

definition lower :: "char \<Rightarrow> char" where
  "lower c = (let n = py_ord c in
     if between 65 90 n \<or> between 192 214 n \<or> between 216 222 n
     then char_of (n + 32) else c)"

definition upper :: "char \<Rightarrow> char" where
  "upper c = (let n = py_ord c in
     if between 97 122 n \<or> between 224 246 n \<or> between 248 254 n
     then char_of (n - 32) else c)"

text \<open>\<^verbatim>\<open>s.strip()\<close>\<close>

definition strip :: "string \<Rightarrow> string" where
  "strip s = rev (dropWhile is_space (rev (dropWhile is_space s)))"

text \<open>\<^verbatim>\<open>s.replace(',', '')\<close>\<close>

definition remove_commas :: "string \<Rightarrow> string" where
  "remove_commas s = filter (\<lambda>c. c \<noteq> CHR '','') s"

text \<open>\<^verbatim>\<open>sep.join(xs)\<close>\<close>

fun join :: "string \<Rightarrow> string list \<Rightarrow> string" where
  "join sep [] = []"
| "join sep [x] = x"
| "join sep (x # y # ys) = x @ sep @ join sep (y # ys)"

section \<open>Exceptions\<close>

text \<open>
  The exceptions the program can meet, all of them subclasses of \<^verbatim>\<open>Exception\<close>,
  each with the message that \<^verbatim>\<open>str(e)\<close> returns.  \<open>OtherError\<close> stands for
  whatever else a library call raises.
\<close>

datatype exn =
    ValueError string
  | TypeError string
  | AttributeError string
  | IndexError string
  | OtherError string

fun str_exn :: "exn \<Rightarrow> string" where
  "str_exn (ValueError m) = m"
| "str_exn (TypeError m) = m"
| "str_exn (AttributeError m) = m"
| "str_exn (IndexError m) = m"
| "str_exn (OtherError m) = m"

fun is_ValueError :: "exn \<Rightarrow> bool" where
  "is_ValueError (ValueError m) = True"
| "is_ValueError e = False"

section \<open>Floating-point numbers\<close>

text \<open>
  A Python \<^verbatim>\<open>float\<close> is an IEEE 754 double: a finite value (a rational here), one
  of the two infinities, a negative zero or a NaN.  Every operation computes the exact
  result and rounds it to the nearest double, ties to the even significand.
\<close>

datatype pyfloat = Finite rat | NegZero | PosInf | NegInf | NaN

definition pow2 :: "int \<Rightarrow> rat" where
  "pow2 e = (if 0 \<le> e then 2 ^ nat e else 1 / 2 ^ nat (- e))"

definition pow10 :: "int \<Rightarrow> rat" where
  "pow10 e = (if 0 \<le> e then 10 ^ nat e else 1 / 10 ^ nat (- e))"

definition round_half_even :: "rat \<Rightarrow> int" where
  "round_half_even x =
     (let f = \<lfloor>x\<rfloor>; d = x - of_int f
      in if d < 1 / 2 then f else if 1 / 2 < d then f + 1 else if even f then f else f + 1)"

text \<open>For \<open>0 < x\<close>, the exponent \<open>e\<close> with \<open>2 ^ e \<le> x < 2 ^ (e + 1)\<close>.\<close>

definition ilog2 :: "rat \<Rightarrow> int" where
  "ilog2 x = (if 1 \<le> x then bitlen \<lfloor>x\<rfloor> - 1 else - bitlen (\<lceil>1 / x\<rceil> - 1))"

text \<open>
  The double nearest to the magnitude \<open>a\<close> with the sign \<open>neg\<close>: 53 significant bits,
  least exponent -1022 (below it the spacing stays that of the subnormals), overflow
  to an infinity.
\<close>

definition to_double :: "bool \<Rightarrow> rat \<Rightarrow> pyfloat" where
  "to_double neg a =
     (if a = 0 then (if neg then NegZero else Finite 0)
      else let e = max (ilog2 a) (- 1022);
               u = pow2 (e - 52);
               r = of_int (round_half_even (a / u)) * u
           in if pow2 1024 \<le> r then (if neg then NegInf else PosInf)
              else if r = 0 then (if neg then NegZero else Finite 0)
              else Finite (if neg then - r else r))"

fun sign_neg :: "pyfloat \<Rightarrow> bool" where
  "sign_neg (Finite q) = (q < 0)"
| "sign_neg NegZero = True"
| "sign_neg NegInf = True"
| "sign_neg x = False"

fun is_inf :: "pyfloat \<Rightarrow> bool" where
  "is_inf PosInf = True"
| "is_inf NegInf = True"
| "is_inf x = False"

fun mag :: "pyfloat \<Rightarrow> rat" where
  "mag (Finite q) = \<bar>q\<bar>"
| "mag x = 0"

text \<open>\<^verbatim>\<open>a * b\<close> on floats.\<close>

definition fmul :: "pyfloat \<Rightarrow> pyfloat \<Rightarrow> pyfloat" where
  "fmul a b =
     (if a = NaN \<or> b = NaN then NaN
      else let neg = (sign_neg a \<noteq> sign_neg b)
           in if is_inf a \<or> is_inf b
              then (if (\<not> is_inf a \<and> mag a = 0) \<or> (\<not> is_inf b \<and> mag b = 0) then NaN
                    else if neg then NegInf else PosInf)
              else to_double neg (mag a * mag b))"

text \<open>
  \<^verbatim>\<open>round(x, ndigits)\<close> for \<open>0 \<le> ndigits\<close>: infinities and NaN round to themselves;
  a finite value is rounded, as the exact number it is, to \<open>ndigits\<close> decimals (ties to
  even), and the decimal result is converted back to a double.
\<close>

definition py_round :: "pyfloat \<Rightarrow> nat \<Rightarrow> pyfloat" where
  "py_round x ndigits =
     (case x of
        Finite q \<Rightarrow>
          if 323 < ndigits then x
          else to_double (q < 0) (of_int (round_half_even (\<bar>q\<bar> * 10 ^ ndigits)) / 10 ^ ndigits)
      | _ \<Rightarrow> x)"

text \<open>A float literal of the source denotes the double nearest to its decimal value.\<close>

definition float_literal :: "rat \<Rightarrow> pyfloat" where
  "float_literal q = to_double (q < 0) \<bar>q\<bar>"

subsection \<open>\<^verbatim>\<open>float(s)\<close> on a string\<close>

text \<open>The white space \<^verbatim>\<open>float\<close> removes around the number.\<close>

definition fl_space :: "char \<Rightarrow> bool" where
  "fl_space c = (let n = py_ord c in between 9 13 n \<or> n = 32 \<or> n = 133 \<or> n = 160)"

text \<open>An underscore is allowed only between two digits.\<close>

fun underscores_ok :: "char \<Rightarrow> string \<Rightarrow> bool" where
  "underscores_ok prev [] = (prev \<noteq> CHR ''_'')"
| "underscores_ok prev (x # xs) =
     ((if x = CHR ''_'' then is_digit prev else (prev = CHR ''_'' \<longrightarrow> is_digit x))
      \<and> underscores_ok x xs)"

definition digits_val :: "string \<Rightarrow> int" where
  "digits_val ds = foldl (\<lambda>a c. 10 * a + (int (py_ord c) - 48)) 0 ds"

text \<open>
  The exponent part, which must reach the end of the string: nothing, or \<^verbatim>\<open>e\<close>,
  an optional sign and at least one digit.
\<close>

definition parse_exponent :: "string \<Rightarrow> int option" where
  "parse_exponent r =
     (case r of
        [] \<Rightarrow> Some 0
      | e # t \<Rightarrow>
          if e = CHR ''e'' \<or> e = CHR ''E'' then
            (let neg = (case t of [] \<Rightarrow> False | x # _ \<Rightarrow> x = CHR ''-'');
                 ds = (case t of [] \<Rightarrow> [] | x # u \<Rightarrow> if x = CHR ''-'' \<or> x = CHR ''+'' then u else t)
             in if ds \<noteq> [] \<and> list_all is_digit ds
                then Some (if neg then - digits_val ds else digits_val ds)
                else None)
          else None)"

text \<open>
  An unsigned decimal number: digits, an optional point and more digits, with at least
  one digit in all, then the exponent part.  The value is exact.
\<close>

definition parse_decimal :: "string \<Rightarrow> rat option" where
  "parse_decimal s =
     (let ip = takeWhile is_digit s;
          r1 = dropWhile is_digit s;
          fp = (case r1 of [] \<Rightarrow> [] | x # t \<Rightarrow> if x = CHR ''.'' then takeWhile is_digit t else []);
          r2 = (case r1 of [] \<Rightarrow> [] | x # t \<Rightarrow> if x = CHR ''.'' then dropWhile is_digit t else r1)
      in if ip = [] \<and> fp = [] then None
         else (case parse_exponent r2 of
                 None \<Rightarrow> None
               | Some ex \<Rightarrow> Some (of_int (digits_val (ip @ fp)) * pow10 (ex - int (length fp)))))"

definition float_of_str :: "string \<Rightarrow> exn + pyfloat" where
  "float_of_str s =
     (if \<not> underscores_ok (CHR 0x00) s then Inl (ValueError ''could not convert string to float'')
      else
        let t = filter (\<lambda>c. c \<noteq> CHR ''_'') s;
            u = rev (dropWhile fl_space (rev (dropWhile fl_space t)));
            neg = (case u of [] \<Rightarrow> False | x # _ \<Rightarrow> x = CHR ''-'');
            v = (case u of [] \<Rightarrow> [] | x # w \<Rightarrow> if x = CHR ''-'' \<or> x = CHR ''+'' then w else u);
            lv = map lower v
        in if lv = ''inf'' \<or> lv = ''infinity'' then Inr (if neg then NegInf else PosInf)
           else if lv = ''nan'' then Inr NaN
           else (case parse_decimal v of
                   None \<Rightarrow> Inl (ValueError ''could not convert string to float'')
                 | Some q \<Rightarrow> Inr (to_double neg q)))"

text \<open>The values the program passes around.\<close>

datatype pyval = PNone | PStr string | PFloat pyfloat

text \<open>\<^verbatim>\<open>float(x)\<close>\<close>

fun py_float :: "pyval \<Rightarrow> exn + pyfloat" where
  "py_float PNone = Inl (TypeError ''float() argument must be a string or a real number, not NoneType'')"
| "py_float (PStr s) = float_of_str s"
| "py_float (PFloat f) = Inr f"

section \<open>Regular expressions\<close>

text \<open>
  The patterns of the program use literals, character classes, greedy and lazy
  repetition of a single-character matcher, optional groups, alternation, one capturing
  group and the anchor \<^verbatim>\<open>$\<close>.  The syntax tree has exactly these.
\<close>

datatype citem = CDigit | CWord | CSpace | CChar char | CRange char char

datatype atom = Lit char | In "citem list" | NotIn "citem list"

datatype regex =
    Atom atom
  | Rep bool nat "nat option" atom
  | Seq regex regex
  | Alt regex regex
  | Opt regex
  | Group nat regex
  | Eol
  | Eps

text \<open>
  Whether one character matches one item of a class.  With \<^verbatim>\<open>re.IGNORECASE\<close>
  (\<open>ic\<close>) the engine lowers the character first, compares a literal with the lowered
  literal, and accepts a range that holds the lowered character or its upper case.
\<close>

fun item_ok :: "bool \<Rightarrow> citem \<Rightarrow> char \<Rightarrow> bool" where
  "item_ok ic CDigit x = is_digit x"
| "item_ok ic CWord x = is_word x"
| "item_ok ic CSpace x = is_space x"
| "item_ok ic (CChar c) x = (if ic then lower x = lower c else x = c)"
| "item_ok ic (CRange a b) x =
     (if ic then between (py_ord a) (py_ord b) (py_ord (lower x)) \<or>
                 between (py_ord a) (py_ord b) (py_ord (upper (lower x)))
      else between (py_ord a) (py_ord b) (py_ord x))"

fun atom_ok :: "bool \<Rightarrow> atom \<Rightarrow> char \<Rightarrow> bool" where
  "atom_ok ic (Lit c) x = (if ic then lower x = lower c else x = c)"
| "atom_ok ic (In items) x = list_ex (\<lambda>i. item_ok ic i x) items"
| "atom_ok ic (NotIn items) x = (\<not> list_ex (\<lambda>i. item_ok ic i x) items)"

text \<open>
  The numbers of repetitions a quantifier tries, in the order the backtracking engine
  tries them, when \<open>n\<close> characters in a row match: a greedy quantifier starts from the
  most, a lazy one from the fewest.
\<close>

definition rep_counts :: "bool \<Rightarrow> nat \<Rightarrow> nat option \<Rightarrow> nat \<Rightarrow> nat list" where
  "rep_counts greedy lo hi n =
     (let m = (case hi of None \<Rightarrow> n | Some h \<Rightarrow> min h n)
      in if m < lo then [] else if greedy then rev [lo..<Suc m] else [lo..<Suc m])"

type_synonym caps = "nat \<Rightarrow> string option"

text \<open>
  All the ways a pattern matches a prefix of the input, in the engine's order of
  preference: each result is the input left over and the groups captured so far.
  The head of the list is the match a backtracking engine finds.
\<close>

fun ms :: "bool \<Rightarrow> regex \<Rightarrow> string \<times> caps \<Rightarrow> (string \<times> caps) list" where
  "ms ic (Atom a) (s, c) =
     (case s of [] \<Rightarrow> [] | x # t \<Rightarrow> if atom_ok ic a x then [(t, c)] else [])"
| "ms ic (Rep greedy lo hi a) (s, c) =
     map (\<lambda>k. (drop k s, c)) (rep_counts greedy lo hi (length (takeWhile (atom_ok ic a) s)))"
| "ms ic (Seq r1 r2) sc = concat (map (ms ic r2) (ms ic r1 sc))"
| "ms ic (Alt r1 r2) sc = ms ic r1 sc @ ms ic r2 sc"
| "ms ic (Opt r) sc = ms ic r sc @ [sc]"
| "ms ic (Group n r) (s, c) =
     map (\<lambda>(s', c'). (s', c'(n \<mapsto> take (length s - length s') s))) (ms ic r (s, c))"
| "ms ic Eol (s, c) = (if s = [] \<or> s = [CHR 0x0A] then [(s, c)] else [])"
| "ms ic Eps sc = [sc]"

text \<open>The greatest group number of a pattern.\<close>

fun ngroups :: "regex \<Rightarrow> nat" where
  "ngroups (Seq r1 r2) = max (ngroups r1) (ngroups r2)"
| "ngroups (Alt r1 r2) = max (ngroups r1) (ngroups r2)"
| "ngroups (Opt r) = ngroups r"
| "ngroups (Group n r) = max n (ngroups r)"
| "ngroups r = 0"

text \<open>
  A match object: the pattern and the captured groups, group 0 being the whole match.
\<close>

datatype match = Match regex caps

text \<open>
  \<^verbatim>\<open>re.search\<close> tries every start position from the left and returns the preferred
  match at the first position that has one.
\<close>

fun search_from :: "bool \<Rightarrow> regex \<Rightarrow> string \<Rightarrow> caps option" where
  "search_from ic r [] =
     (case ms ic r ([], Map.empty) of [] \<Rightarrow> None
      | (s', c) # _ \<Rightarrow> Some (c(0 \<mapsto> [])))"
| "search_from ic r (x # t) =
     (case ms ic r (x # t, Map.empty) of [] \<Rightarrow> search_from ic r t
      | (s', c) # _ \<Rightarrow> Some (c(0 \<mapsto> take (length (x # t) - length s') (x # t))))"

definition re_search :: "regex \<Rightarrow> string \<Rightarrow> bool \<Rightarrow> match option" where
  "re_search pattern text ic = map_option (Match pattern) (search_from ic pattern text)"

text \<open>
  \<^verbatim>\<open>m.group(n)\<close>: an \<^verbatim>\<open>IndexError\<close> when the pattern has no group \<open>n\<close>,
  \<^verbatim>\<open>None\<close> when the group took no part in the match.
\<close>

fun group :: "match \<Rightarrow> nat \<Rightarrow> exn + string option" where
  "group (Match p c) n = (if ngroups p < n then Inl (IndexError ''no such group'') else Inr (c n))"

section \<open>The patterns of the program\<close>

definition seqs :: "regex list \<Rightarrow> regex" where
  "seqs rs = foldr Seq rs Eps"

definition lits :: "string \<Rightarrow> regex list" where
  "lits s = map (\<lambda>c. Atom (Lit c)) s"

definition plus :: "atom \<Rightarrow> regex" where
  "plus a = Rep True 1 None a"

definition star :: "atom \<Rightarrow> regex" where
  "star a = Rep True 0 None a"

definition lazy_plus :: "atom \<Rightarrow> regex" where
  "lazy_plus a = Rep False 1 None a"

definition exactly :: "nat \<Rightarrow> atom \<Rightarrow> regex" where
  "exactly n a = Rep True n (Some n) a"

text \<open>\<^verbatim>\<open>\s\<close>, \<^verbatim>\<open>\d\<close>, \<^verbatim>\<open>[^\d]\<close>, \<^verbatim>\<open>[\d,.]\<close> and \<^verbatim>\<open>[\d,.-]\<close>\<close>

definition ws :: atom where
  "ws = In [CSpace]"

definition digit :: atom where
  "digit = In [CDigit]"

definition non_digit :: atom where
  "non_digit = NotIn [CDigit]"

definition amount_char :: atom where
  "amount_char = In [CDigit, CChar CHR '','', CChar CHR ''.'']"

definition signed_amount_char :: atom where
  "signed_amount_char = In [CDigit, CChar CHR '','', CChar CHR ''.'', CChar CHR ''-'']"

text \<open>\<^verbatim>\<open>\d{4}-\d{2}-\d{2}\<close>\<close>

definition iso_date :: regex where
  "iso_date = seqs [exactly 4 digit, Atom (Lit CHR ''-''), exactly 2 digit,
                    Atom (Lit CHR ''-''), exactly 2 digit]"

text \<open>\<^verbatim>\<open>YOUR ACCOUNT NO\s+(\d+)\<close>\<close>

definition pat_account_number :: regex where
  "pat_account_number = seqs (lits ''YOUR ACCOUNT NO'' @ [plus ws, Group 1 (plus digit)])"

text \<open>\<^verbatim>\<open>BILLING DATE\s+(\d{4}-\d{2}-\d{2})\<close>\<close>

definition pat_billing_date :: regex where
  "pat_billing_date = seqs (lits ''BILLING DATE'' @ [plus ws, Group 1 iso_date])"

text \<open>\<^verbatim>\<open>TAX INVOICE NO\s+(\d+)\<close>\<close>

definition pat_invoice_number :: regex where
  "pat_invoice_number = seqs (lits ''TAX INVOICE NO'' @ [plus ws, Group 1 (plus digit)])"

text \<open>\<^verbatim>\<open>ACCOUNT MONTH\s+([A-Z]+ \d{4})\<close>\<close>

definition pat_account_month :: regex where
  "pat_account_month = seqs (lits ''ACCOUNT MONTH'' @
     [plus ws,
      Group 1 (seqs [plus (In [CRange CHR ''A'' CHR ''Z'']), Atom (Lit CHR '' ''),
                     exactly 4 digit])])"

text \<open>\<^verbatim>\<open>(?:CURRENT )?DUE DATE\s+(\d{4}-\d{2}-\d{2})\<close>\<close>

definition pat_due_date :: regex where
  "pat_due_date = seqs (Opt (seqs (lits ''CURRENT '')) # lits ''DUE DATE'' @
     [plus ws, Group 1 iso_date])"

text \<open>\<^verbatim>\<open>NAME\s+([\w,\s&]+)\<close>\<close>

definition pat_customer_name :: regex where
  "pat_customer_name = seqs (lits ''NAME'' @
     [plus ws, Group 1 (plus (In [CWord, CChar CHR '','', CSpace, CChar CHR ''&'']))])"

text \<open>\<^verbatim>\<open>Opening Reading[^\d]+([\d,.]+|-)\<close> and its four siblings\<close>

definition reading_pattern :: "string \<Rightarrow> regex" where
  "reading_pattern label = seqs (lits label @
     [plus non_digit, Group 1 (Alt (plus amount_char) (Atom (Lit CHR ''-'')))])"

definition pat_opening_reading :: regex where
  "pat_opening_reading = reading_pattern ''Opening Reading''"

definition pat_closing_reading :: regex where
  "pat_closing_reading = reading_pattern ''Closing Reading''"

definition pat_consumption :: regex where
  "pat_consumption = reading_pattern ''TOTAL ENERGY CONSUMED''"

definition pat_network_charge :: regex where
  "pat_network_charge = reading_pattern ''Network Capacity Charge''"

definition pat_energy_charge :: regex where
  "pat_energy_charge = reading_pattern ''Energy Charge''"

text \<open>\<^verbatim>\<open>TOTAL AMOUNT DUE\s+R\s+([\d,.-]+)(?:CR)?\<close>\<close>

definition pat_total_due :: regex where
  "pat_total_due = seqs (lits ''TOTAL AMOUNT DUE'' @
     [plus ws, Atom (Lit CHR ''R''), plus ws, Group 1 (plus signed_amount_char),
      Opt (seqs (lits ''CR''))])"

text \<open>\<^verbatim>\<open>NAME\s+([\w,\s&]+?)(?:\s*FAX|\s*$)\<close>\<close>

definition pat_clean_customer_name :: regex where
  "pat_clean_customer_name = seqs (lits ''NAME'' @
     [plus ws,
      Group 1 (lazy_plus (In [CWord, CChar CHR '','', CSpace, CChar CHR ''&''])),
      Alt (seqs (star ws # lits ''FAX'')) (seqs [star ws, Eol])])"

text \<open>\<^verbatim>\<open>TOTAL ENERGY CONSUMED[^\d]+([\d,.]+)\<close>\<close>

definition pat_bill_consumption :: regex where
  "pat_bill_consumption = seqs (lits ''TOTAL ENERGY CONSUMED'' @
     [plus non_digit, Group 1 (plus amount_char)])"

text \<open>\<^verbatim>\<open>Network Capacity Charge @ R([\d.]+) per day\<close>\<close>

definition pat_network_rate :: regex where
  "pat_network_rate = seqs (lits ''Network Capacity Charge @ R'' @
     [Group 1 (plus (In [CDigit, CChar CHR ''.'']))] @ lits '' per day'')"

text \<open>\<^verbatim>\<open>TOTAL CHARGES FOR BILLING PERIOD\s+R\s+([\d,.-]+)\<close>\<close>

definition charges_pattern :: regex where
  "charges_pattern = seqs (lits ''TOTAL CHARGES FOR BILLING PERIOD'' @
     [plus ws, Atom (Lit CHR ''R''), plus ws, Group 1 (plus signed_amount_char)])"

text \<open>\<^verbatim>\<open>READING TYPE:\s+(\w+)\<close>\<close>

definition pat_reading_type :: regex where
  "pat_reading_type = seqs (lits ''READING TYPE:'' @ [plus ws, Group 1 (plus (In [CWord]))])"

section \<open>The processor\<close>

subsection \<open>Field extraction and normalisation\<close>

text \<open>
  \<^verbatim>\<open>extract_value\<close>: \<^verbatim>\<open>match.group(1).strip() if match else None\<close>.  Calling
  \<^verbatim>\<open>strip\<close> on the \<^verbatim>\<open>None\<close> of a group that took no part raises.
\<close>

definition group1_stripped :: "match option \<Rightarrow> exn + string option" where
  "group1_stripped mo =
     (case mo of
        None \<Rightarrow> Inr None
      | Some m \<Rightarrow>
          (case group m 1 of
             Inl e \<Rightarrow> Inl e
           | Inr None \<Rightarrow> Inl (AttributeError ''NoneType object has no attribute strip'')
           | Inr (Some g) \<Rightarrow> Inr (Some (strip g))))"

definition extract_value :: "string \<Rightarrow> regex \<Rightarrow> exn + string option" where
  "extract_value text pattern = group1_stripped (re_search pattern text True)"

text \<open>
  \<^verbatim>\<open>clean_numeric_value\<close>, on what \<^verbatim>\<open>extract_value\<close> returns: a string or
  \<^verbatim>\<open>None\<close>.  The result is what the call prints and what it returns or raises; only
  a \<^verbatim>\<open>ValueError\<close> is caught.
\<close>

definition warning :: "string \<Rightarrow> string" where
  "warning v = ''Warning: Could not convert '' @ [CHR 0x27] @ v @ [CHR 0x27] @ '' to number, using 0''"

definition clean_numeric_value :: "string option \<Rightarrow> string list \<times> (exn + pyfloat)" where
  "clean_numeric_value val =
     (case val of
        None \<Rightarrow> ([], Inr (Finite 0))
      | Some v \<Rightarrow>
          if v = ''-'' \<or> v = [] then ([], Inr (Finite 0))
          else (case float_of_str (remove_commas v) of
                  Inr f \<Rightarrow> ([], Inr f)
                | Inl e \<Rightarrow> if is_ValueError e then ([warning v], Inr (Finite 0))
                           else ([], Inl e)))"

text \<open>\<^verbatim>\<open>clean_customer_name\<close>\<close>

definition clean_customer_name :: "string \<Rightarrow> exn + string option" where
  "clean_customer_name text = group1_stripped (re_search pat_clean_customer_name text True)"

text \<open>
  \<^verbatim>\<open>calculate_vat\<close>: \<^verbatim>\<open>round(float(total_charges) * 0.15, 2)\<close>, where the bare
  \<^verbatim>\<open>except\<close> turns every exception into \<^verbatim>\<open>None\<close>.
\<close>

definition vat_rate :: pyfloat where
  "vat_rate = float_literal (15 / 100)"

definition calculate_vat :: "pyval \<Rightarrow> pyfloat option" where
  "calculate_vat total_charges =
     (case py_float total_charges of
        Inl e \<Rightarrow> None
      | Inr f \<Rightarrow> Some (py_round (fmul f vat_rate) 2))"

subsection \<open>Records\<close>

text \<open>
  A record is a Python \<^verbatim>\<open>dict\<close> written as a literal with distinct keys: the list of
  its entries in the order of the literal.
\<close>

type_synonym bill = "(string \<times> pyval) list"

definition opt_str :: "string option \<Rightarrow> pyval" where
  "opt_str v = (case v of None \<Rightarrow> PNone | Some s \<Rightarrow> PStr s)"

datatype kind = Textual | Numeric

text \<open>
  One entry of the literal in \<^verbatim>\<open>process_pdf\<close>: a textual field is the extracted
  value itself, a numeric field goes through \<^verbatim>\<open>clean_numeric_value\<close>.
\<close>

fun field_value :: "string \<Rightarrow> kind \<Rightarrow> regex \<Rightarrow> string list \<times> (exn + pyval)" where
  "field_value text Textual p =
     (case extract_value text p of
        Inl e \<Rightarrow> ([], Inl e)
      | Inr v \<Rightarrow> ([], Inr (opt_str v)))"
| "field_value text Numeric p =
     (case extract_value text p of
        Inl e \<Rightarrow> ([], Inl e)
      | Inr v \<Rightarrow>
          (case clean_numeric_value v of
             (w, Inl e) \<Rightarrow> (w, Inl e)
           | (w, Inr f) \<Rightarrow> (w, Inr (PFloat f))))"

text \<open>The entries of the literal, evaluated from the first to the last.\<close>

fun build :: "string \<Rightarrow> (string \<times> kind \<times> regex) list \<Rightarrow> string list \<times> (exn + bill)" where
  "build text [] = ([], Inr [])"
| "build text ((k, knd, p) # rest) =
     (case field_value text knd p of
        (w, Inl e) \<Rightarrow> (w, Inl e)
      | (w, Inr v) \<Rightarrow>
          (case build text rest of
             (w', Inl e) \<Rightarrow> (w @ w', Inl e)
           | (w', Inr d) \<Rightarrow> (w @ w', Inr ((k, v) # d))))"

definition process_pdf_fields :: "(string \<times> kind \<times> regex) list" where
  "process_pdf_fields =
     [(''account_number'', Textual, pat_account_number),
      (''billing_date'', Textual, pat_billing_date),
      (''invoice_number'', Textual, pat_invoice_number),
      (''account_month'', Textual, pat_account_month),
      (''due_date'', Textual, pat_due_date),
      (''customer_name'', Textual, pat_customer_name),
      (''opening_reading'', Numeric, pat_opening_reading),
      (''closing_reading'', Numeric, pat_closing_reading),
      (''consumption'', Numeric, pat_consumption),
      (''total_due'', Numeric, pat_total_due),
      (''network_charge'', Numeric, pat_network_charge),
      (''energy_charge'', Numeric, pat_energy_charge)]"

subsection \<open>\<^verbatim>\<open>process_pdf\<close>\<close>

text \<open>
  What the PDF library gives for one file: opening it raises, or it has pages, and
  \<^verbatim>\<open>extract_text\<close> on a page returns a string, returns \<^verbatim>\<open>None\<close> or raises.
  Leaving the \<^verbatim>\<open>with\<close> block closes the document, which may raise as well
  (\<open>close_error\<close>).
\<close>

datatype page = PageText string | PageNone | PageRaises exn

record pdf_file =
  path :: string
  name :: string
  opened :: "exn + page list"
  close_error :: "exn option"

text \<open>Decimal digits of a number, as \<^verbatim>\<open>str\<close> prints it.\<close>

function str_nat :: "nat \<Rightarrow> string" where
  "str_nat n = (if n < 10 then [char_of (48 + n)]
                else str_nat (n div 10) @ [char_of (48 + n mod 10)])"
  by pat_completeness auto
termination
  by (relation "measure id") auto

declare str_nat.simps [simp del]

text \<open>
  \<^verbatim>\<open>"\n".join(page.extract_text() for page in pdf.pages)\<close>: the generator is run to
  its end first, so the first page that raises decides; then the first item that is
  not a string raises a \<^verbatim>\<open>TypeError\<close>.
\<close>

fun extract_texts :: "page list \<Rightarrow> exn + string option list" where
  "extract_texts [] = Inr []"
| "extract_texts (PageRaises e # ps) = Inl e"
| "extract_texts (PageText t # ps) =
     (case extract_texts ps of Inl e \<Rightarrow> Inl e | Inr ts \<Rightarrow> Inr (Some t # ts))"
| "extract_texts (PageNone # ps) =
     (case extract_texts ps of Inl e \<Rightarrow> Inl e | Inr ts \<Rightarrow> Inr (None # ts))"

fun first_none :: "nat \<Rightarrow> string option list \<Rightarrow> nat option" where
  "first_none i [] = None"
| "first_none i (None # ts) = Some i"
| "first_none i (Some t # ts) = first_none (Suc i) ts"

definition join_pages :: "string option list \<Rightarrow> exn + string" where
  "join_pages ts =
     (case first_none 0 ts of
        Some i \<Rightarrow> Inl (TypeError (''sequence item '' @ str_nat i @
                                   '': expected str instance, NoneType found''))
      | None \<Rightarrow> Inr (join [CHR 0x0A] (map the ts)))"

definition document_text :: "pdf_file \<Rightarrow> exn + string" where
  "document_text pdf =
     (case opened pdf of
        Inl e \<Rightarrow> Inl e
      | Inr pages \<Rightarrow>
          (case extract_texts pages of Inl e \<Rightarrow> Inl e | Inr ts \<Rightarrow> join_pages ts))"

text \<open>The state: the processor's \<^verbatim>\<open>self.data\<close>, the lines printed, the files written.\<close>

record state =
  data :: "bill list"
  stdout :: "string list"
  files :: "string \<Rightarrow> bill list option"

definition print :: "string list \<Rightarrow> state \<Rightarrow> state" where
  "print ls st = st\<lparr>stdout := stdout st @ ls\<rparr>"

text \<open>\<^verbatim>\<open>EskomBillProcessor()\<close> on a fresh console and file system.\<close>

definition init :: state where
  "init = \<lparr>data = [], stdout = [], files = Map.empty\<rparr>"

text \<open>
  \<^verbatim>\<open>process_pdf\<close>.  The whole body is in one \<^verbatim>\<open>try\<close>, and \<^verbatim>\<open>except Exception\<close> prints
  the exception and returns \<^verbatim>\<open>False\<close>.  The \<^verbatim>\<open>with\<close> block is entered only when the
  file opens.  An exception raised inside the block leaves it through the closing of
  the document, and one raised by the closing takes its place.  The append and
  \<^verbatim>\<open>return True\<close> are inside the block too: the document is closed after the record
  has been appended, and an exception raised then is caught like any other.
\<close>

definition leaving :: "pdf_file \<Rightarrow> exn \<Rightarrow> exn" where
  "leaving pdf e =
     (case opened pdf of
        Inl e0 \<Rightarrow> e
      | Inr pages \<Rightarrow> (case close_error pdf of None \<Rightarrow> e | Some e' \<Rightarrow> e'))"

definition process_pdf :: "pdf_file \<Rightarrow> state \<Rightarrow> bool \<times> state" where
  "process_pdf pdf st =
     (case document_text pdf of
        Inl e \<Rightarrow>
          (False, print [''Error processing '' @ path pdf @ '': '' @ str_exn (leaving pdf e)] st)
      | Inr text \<Rightarrow>
          (case build text process_pdf_fields of
             (w, Inl e) \<Rightarrow>
               (False,
                print (w @ [''Error processing '' @ path pdf @ '': '' @ str_exn (leaving pdf e)]) st)
           | (w, Inr d) \<Rightarrow>
               (case close_error pdf of
                  None \<Rightarrow> (True, (print w st)\<lparr>data := data st @ [d]\<rparr>)
                | Some e' \<Rightarrow>
                    (False,
                     (print (w @ [''Error processing '' @ path pdf @ '': '' @ str_exn e']) st)
                       \<lparr>data := data st @ [d]\<rparr>))))"

subsection \<open>\<^verbatim>\<open>process_directory\<close>\<close>

text \<open>
  The loop over the files that \<^verbatim>\<open>glob\<close> lists, with its counter.
\<close>

fun process_files :: "pdf_file list \<Rightarrow> nat \<Rightarrow> state \<Rightarrow> nat \<times> state" where
  "process_files [] success_count st = (success_count, st)"
| "process_files (pdf # pdfs) success_count st =
     (case process_pdf pdf st of
        (True, st') \<Rightarrow>
          process_files pdfs (success_count + 1)
            (print [''Successfully processed: '' @ name pdf] st')
      | (False, st') \<Rightarrow> process_files pdfs success_count st')"

definition process_directory :: "pdf_file list \<Rightarrow> state \<Rightarrow> state" where
  "process_directory pdf_files st =
     (case process_files pdf_files 0 st of
        (success_count, st') \<Rightarrow>
          if success_count = 0 then print [''No PDF files were successfully processed''] st'
          else print [''Successfully processed '' @ str_nat success_count @ '' PDF files''] st')"

subsection \<open>\<^verbatim>\<open>export_to_csv\<close>\<close>

text \<open>
  The clock reading of \<^verbatim>\<open>datetime.now()\<close> and \<^verbatim>\<open>strftime("%Y%m%d_%H%M%S")\<close>, every
  field zero-padded to its width.
\<close>

record datetime =
  year :: nat
  month :: nat
  day :: nat
  hour :: nat
  minute :: nat
  second :: nat
  microsecond :: nat

definition valid_datetime :: "datetime \<Rightarrow> bool" where
  "valid_datetime t =
     (1 \<le> year t \<and> year t \<le> 9999 \<and> 1 \<le> month t \<and> month t \<le> 12 \<and>
      1 \<le> day t \<and> day t \<le> 31 \<and> hour t < 24 \<and> minute t < 60 \<and> second t < 60 \<and>
      microsecond t < 1000000)"

definition pad :: "nat \<Rightarrow> nat \<Rightarrow> string" where
  "pad w n = replicate (w - length (str_nat n)) (CHR ''0'') @ str_nat n"

definition strftime :: "datetime \<Rightarrow> string" where
  "strftime t = pad 4 (year t) @ pad 2 (month t) @ pad 2 (day t) @ ''_'' @
                pad 2 (hour t) @ pad 2 (minute t) @ pad 2 (second t)"

text \<open>
  \<^verbatim>\<open>os.path.splitext\<close>: the extension starts at the last dot, if that dot comes after
  the last separator and after a character of the file name that is not a dot.
  \<open>seps\<close> are the separators of the platform.
\<close>

fun rfind :: "(char \<Rightarrow> bool) \<Rightarrow> string \<Rightarrow> int" where
  "rfind P [] = - 1"
| "rfind P (x # xs) = (let r = rfind P xs in if 0 \<le> r then r + 1 else if P x then 0 else - 1)"

definition splitext :: "char list \<Rightarrow> string \<Rightarrow> string \<times> string" where
  "splitext seps p =
     (let sepIndex = rfind (\<lambda>c. c \<in> set seps) p;
          dotIndex = rfind (\<lambda>c. c = CHR ''.'') p
      in if sepIndex < dotIndex \<and>
            list_ex (\<lambda>c. c \<noteq> CHR ''.'')
              (take (nat (dotIndex - (sepIndex + 1))) (drop (nat (sepIndex + 1)) p))
         then (take (nat dotIndex) p, drop (nat dotIndex) p)
         else (p, []))"

text \<open>
  What the run cannot decide: the clock, the separators of the platform, and whether
  writing a file at a path raises.
\<close>

record env =
  now :: datetime
  seps :: "char list"
  write_error :: "string \<Rightarrow> exn option"

text \<open>
  The numeric columns after \<^verbatim>\<open>pd.to_numeric(...).fillna(0)\<close>: the values are floats
  already, and a NaN becomes 0.
\<close>

definition numeric_columns :: "string list" where
  "numeric_columns = [''consumption'', ''total_due'', ''network_charge'', ''energy_charge'',
                      ''opening_reading'', ''closing_reading'']"

definition fillna :: "bill \<Rightarrow> bill" where
  "fillna d = map (\<lambda>(k, v). if k \<in> set numeric_columns \<and> v = PFloat NaN
                             then (k, PFloat (Finite 0)) else (k, v)) d"

definition output_path :: "env \<Rightarrow> string \<Rightarrow> string" where
  "output_path ev base_output_path =
     (case splitext (seps ev) base_output_path of
        (file_name, file_ext) \<Rightarrow> file_name @ ''_'' @ strftime (now ev) @ file_ext)"

definition export_to_csv :: "env \<Rightarrow> string \<Rightarrow> state \<Rightarrow> bool \<times> state" where
  "export_to_csv ev base_output_path st =
     (if data st = [] then (False, print [''No data to export''] st)
      else
        let df = map fillna (data st);
            p = output_path ev base_output_path
        in case write_error ev p of
             None \<Rightarrow> (True, (print [''Data exported to: '' @ p] st)\<lparr>files := (files st)(p \<mapsto> df)\<rparr>)
           | Some e \<Rightarrow> (False, print [''Error exporting data: '' @ str_exn e] st))"

section \<open>Notions used to state the properties\<close>

text \<open>
  The input starts with the literal \<open>l\<close> (up to case when \<open>ic\<close> is set): a labelled
  occurrence of \<open>l\<close>.
\<close>

fun lit_prefix :: "bool \<Rightarrow> string \<Rightarrow> string \<Rightarrow> bool" where
  "lit_prefix ic [] s = True"
| "lit_prefix ic (a # l) [] = False"
| "lit_prefix ic (a # l) (x # s) = (atom_ok ic (Lit a) x \<and> lit_prefix ic l s)"

text \<open>A syntactic check that every match of the pattern sets group \<open>n\<close>.\<close>

fun always_sets :: "nat \<Rightarrow> regex \<Rightarrow> bool" where
  "always_sets n (Group k r) = (k = n \<or> always_sets n r)"
| "always_sets n (Seq r1 r2) = (always_sets n r1 \<or> always_sets n r2)"
| "always_sets n (Alt r1 r2) = (always_sets n r1 \<and> always_sets n r2)"
| "always_sets n r = False"

text \<open>
  The patterns the program passes to \<^verbatim>\<open>extract_value\<close>: the twelve of
  \<^verbatim>\<open>process_pdf\<close> and the two more of \<^verbatim>\<open>extract_bill_data\<close>.
\<close>

definition labelled_patterns :: "regex list" where
  "labelled_patterns = map (\<lambda>(k, knd, p). p) process_pdf_fields @ [charges_pattern, pat_reading_type]"

text \<open>The pattern has no match at any position of the text.\<close>

definition no_match :: "bool \<Rightarrow> regex \<Rightarrow> string \<Rightarrow> bool" where
  "no_match ic p text = (\<forall>i \<le> length text. ms ic p (drop i text, Map.empty) = [])"

text \<open>
  The groups \<open>c\<close> are those of the match the engine prefers at position \<open>i\<close>, and no
  position before \<open>i\<close> has a match: the first match.
\<close>

definition first_match :: "bool \<Rightarrow> regex \<Rightarrow> string \<Rightarrow> nat \<Rightarrow> caps \<Rightarrow> bool" where
  "first_match ic p text i c =
     (i \<le> length text \<and> (\<forall>j < i. ms ic p (drop j text, Map.empty) = []) \<and>
      (\<exists>s' c' rest. ms ic p (drop i text, Map.empty) = (s', c') # rest \<and>
         c = c'(0 \<mapsto> take (length text - i - length s') (drop i text))))"

text \<open>No white space at either end.\<close>

definition trimmed :: "string \<Rightarrow> bool" where
  "trimmed s = (s = [] \<or> (\<not> is_space (hd s) \<and> \<not> is_space (last s)))"

text \<open>A file that opens and whose pages all give text.\<close>

fun is_text :: "page \<Rightarrow> bool" where
  "is_text (PageText t) = True"
| "is_text p = False"

definition readable :: "pdf_file \<Rightarrow> bool" where
  "readable pdf = (case opened pdf of Inl e \<Rightarrow> False | Inr pages \<Rightarrow> list_all is_text pages)"

text \<open>A readable file whose closing does not raise.\<close>

definition processable :: "pdf_file \<Rightarrow> bool" where
  "processable pdf = (readable pdf \<and> close_error pdf = None)"

text \<open>The record \<^verbatim>\<open>process_pdf\<close> builds from a readable file.\<close>

definition bill_of :: "pdf_file \<Rightarrow> bill" where
  "bill_of pdf =
     (case document_text pdf of
        Inl e \<Rightarrow> []
      | Inr text \<Rightarrow> (case build text process_pdf_fields of (w, Inl e) \<Rightarrow> [] | (w, Inr d) \<Rightarrow> d))"

text \<open>The line \<^verbatim>\<open>process_pdf\<close> prints for an exception.\<close>

definition error_line :: "pdf_file \<Rightarrow> exn \<Rightarrow> string" where
  "error_line pdf e = ''Error processing '' @ path pdf @ '': '' @ str_exn e"

text \<open>Two clock readings that agree up to the second.\<close>

definition same_second :: "datetime \<Rightarrow> datetime \<Rightarrow> bool" where
  "same_second t u =
     (year t = year u \<and> month t = month u \<and> day t = day u \<and>
      hour t = hour u \<and> minute t = minute u \<and> second t = second u)"

text \<open>The number a string of decimal digits denotes.\<close>

definition dec_val :: "string \<Rightarrow> nat" where
  "dec_val s = foldl (\<lambda>a c. 10 * a + (py_ord c - 48)) 0 s"

text \<open>Some inputs.\<close>

definition corrupt_pdf :: pdf_file where
  "corrupt_pdf = \<lparr>path = ''bills/corrupt.pdf'', name = ''corrupt.pdf'',
                  opened = Inl (OtherError ''No /Root object! - Is this really a PDF?''),
                  close_error = None\<rparr>"

definition page_none_pdf :: pdf_file where
  "page_none_pdf = \<lparr>path = ''bills/scan.pdf'', name = ''scan.pdf'',
                    opened = Inr [PageText ''YOUR ACCOUNT NO 1'', PageNone, PageText ''x''],
                    close_error = None\<rparr>"

definition text_pdf :: "string \<Rightarrow> string \<Rightarrow> pdf_file" where
  "text_pdf nm t = \<lparr>path = ''bills/'' @ nm, name = nm, opened = Inr [PageText t],
                     close_error = None\<rparr>"

text \<open>A file whose pages give text and whose closing raises.\<close>

definition close_fails_pdf :: pdf_file where
  "close_fails_pdf = \<lparr>path = ''bills/apr.pdf'', name = ''apr.pdf'',
                      opened = Inr [PageText ''YOUR ACCOUNT NO 12345''],
                      close_error = Some (OtherError ''I/O operation on closed file'')\<rparr>"

definition run_env :: "datetime \<Rightarrow> env" where
  "run_env t = \<lparr>now = t, seps = ''/'', write_error = (\<lambda>p. None)\<rparr>"

definition noon :: datetime where
  "noon = \<lparr>year = 2024, month = 3, day = 5, hour = 12, minute = 0, second = 0,
            microsecond = 100000\<rparr>"

definition noon_later :: datetime where
  "noon_later = \<lparr>year = 2024, month = 3, day = 5, hour = 12, minute = 0, second = 0,
                  microsecond = 900000\<rparr>"

definition one_bill :: state where
  "one_bill = \<lparr>data = [[(''account_number'', PStr ''1'')]], stdout = [], files = Map.empty\<rparr>"

definition four_files :: "pdf_file list" where
  "four_files = [text_pdf ''jan.pdf'' ''YOUR ACCOUNT NO 12345'', text_pdf ''feb.pdf'' [],
                 corrupt_pdf, text_pdf ''mar.pdf'' ''TOTAL AMOUNT DUE R 1,000.00'']"

definition sample_pdf :: pdf_file where
  "sample_pdf = text_pdf ''jan.pdf'' ''READING TYPE: ACTUAL TOTAL AMOUNT DUE R 1.2.3''"

definition midnight :: datetime where
  "midnight = \<lparr>year = 2024, month = 3, day = 6, hour = 0, minute = 0, second = 0,
                microsecond = 0\<rparr>"

text \<open>
  A second run of the program after a first one has exported the one record it had:
  a fresh processor with another record, on the file system the first run left.
\<close>

definition second_run :: state where
  "second_run = (snd (export_to_csv (run_env noon) ''out/bills.csv'' one_bill))
                  \<lparr>data := [[(''account_number'', PStr ''2'')]], stdout := []\<rparr>"

section \<open>Evaluation of the library model on concrete inputs\<close>

lemma float_of_str_raises_ValueError: "float_of_str s = Inl e \<Longrightarrow> is_ValueError e"
  by (auto simp: float_of_str_def Let_def split: if_splits option.splits)

lemma bitlen_numeral: "bitlen (numeral k) = bitlen (numeral k div 2) + 1"
  by (subst compute_bitlen) simp

lemma bitlen_one: "bitlen 1 = 1"
  by (subst compute_bitlen) simp

lemma floor_rat_numeral: "\<lfloor>(numeral a / numeral b :: rat)\<rfloor> = numeral a div numeral b"
  using floor_divide_of_int_eq [of "numeral a" "numeral b", where ?'a = rat] by simp

lemma ceiling_rat_numeral:
  "\<lceil>(numeral a / numeral b :: rat)\<rceil> = - (- numeral a div numeral b)"
  using floor_divide_of_int_eq [of "- numeral a" "numeral b", where ?'a = rat]
  by (simp add: ceiling_def)

lemma of_char_lower:
  "(of_char (lower c) :: nat) =
     (let n = of_char c
      in if between 65 90 n \<or> between 192 214 n \<or> between 216 222 n then n + 32 else n)"
  by (simp add: lower_def py_ord_def between_def Let_def)

lemma of_char_upper:
  "(of_char (upper c) :: nat) =
     (let n = of_char c
      in if between 97 122 n \<or> between 224 246 n \<or> between 248 254 n then n - 32 else n)"
  by (auto simp: upper_def py_ord_def between_def Let_def)

lemma lower_eq_iff: "(lower x = lower c) = ((of_char (lower x) :: nat) = of_char (lower c))"
  by simp

lemmas char_eval = is_space_def is_word_def is_digit_def py_ord_def between_def
  of_char_lower of_char_upper lower_eq_iff

lemmas float_eval = to_double_def ilog2_def pow2_def pow10_def round_half_even_def Let_def
  bitlen_numeral bitlen_one floor_rat_numeral ceiling_rat_numeral

lemmas parse_eval = float_of_str_def fl_space_def parse_decimal_def parse_exponent_def
  digits_val_def is_digit_def py_ord_def between_def lower_def float_eval

lemma float_NA: "float_of_str ''N/A'' = Inl (ValueError ''could not convert string to float'')"
  by (simp add: parse_eval)

lemma float_1000: "float_of_str ''1000'' = Inr (Finite 1000)"
  by (simp add: parse_eval)

lemma float_abc: "float_of_str ''abc'' = Inl (ValueError ''could not convert string to float'')"
  by (simp add: parse_eval)

lemma vat_rate_value: "vat_rate = Finite (5404319552844595 / 36028797018963968)"
  by (simp add: vat_rate_def float_literal_def float_eval)

lemma vat_of_1000: "py_round (fmul (Finite 1000) vat_rate) 2 = Finite 150"
  by (simp add: vat_rate_value py_round_def fmul_def float_eval)

lemma float_1_2_3: "float_of_str ''1.2.3'' = Inl (ValueError ''could not convert string to float'')"
  by (simp add: parse_eval)

lemmas str_eval = str_nat.simps char_of_def bit_Suc_0_iff

lemma str_nat_3: "str_nat 3 = ''3''"
  by (simp add: str_eval)

lemma round_half_even_near: "\<bar>of_int (round_half_even x) - x\<bar> \<le> 1 / 2"
proof -
  have a: "of_int \<lfloor>x\<rfloor> \<le> x" and b: "x < of_int \<lfloor>x\<rfloor> + 1"
    by linarith+
  consider (lo) "x - of_int \<lfloor>x\<rfloor> < 1 / 2" | (hi) "1 / 2 < x - of_int \<lfloor>x\<rfloor>"
    | (eq) "x - of_int \<lfloor>x\<rfloor> = 1 / 2"
    by linarith
  then show ?thesis
  proof cases
    case lo
    then have "round_half_even x = \<lfloor>x\<rfloor>"
      by (simp add: round_half_even_def Let_def)
    with lo a show ?thesis by linarith
  next
    case hi
    then have "round_half_even x = \<lfloor>x\<rfloor> + 1"
      by (simp add: round_half_even_def Let_def)
    then have "of_int (round_half_even x) = (of_int \<lfloor>x\<rfloor> :: rat) + 1"
      by simp
    with hi b show ?thesis by linarith
  next
    case eq
    then have "round_half_even x = \<lfloor>x\<rfloor> \<or> round_half_even x = \<lfloor>x\<rfloor> + 1"
      by (simp add: round_half_even_def Let_def)
    then have "of_int (round_half_even x) = (of_int \<lfloor>x\<rfloor> :: rat)
        \<or> of_int (round_half_even x) = (of_int \<lfloor>x\<rfloor> :: rat) + 1"
      by auto
    with eq show ?thesis by linarith
  qed
qed

lemma underscores_ok_plain:
  "CHR ''_'' \<notin> set s \<Longrightarrow> prev \<noteq> CHR ''_'' \<Longrightarrow> underscores_ok prev s"
  by (induction s arbitrary: prev) auto

lemma digit_facts:
  assumes "is_digit c"
  shows "c \<noteq> CHR ''_''" "c \<noteq> CHR ''-''" "c \<noteq> CHR ''+''" "\<not> fl_space c" "lower c = c"
    "c \<noteq> CHR ''i''" "c \<noteq> CHR ''n''" "c \<noteq> CHR '',''"
  using assms by (auto simp: is_digit_def fl_space_def lower_def py_ord_def between_def Let_def)

lemma digits_val_dec_val:
  "list_all is_digit s \<Longrightarrow> foldl (\<lambda>a c. 10 * a + (int (py_ord c) - 48)) (int n) s
     = int (foldl (\<lambda>a c. 10 * a + (py_ord c - 48)) n s)"
proof (induction s arbitrary: n)
  case Nil
  then show ?case by simp
next
  case (Cons c s)
  then have "48 \<le> py_ord c" by (simp add: is_digit_def between_def)
  then have e: "10 * int n + (int (py_ord c) - 48) = int (10 * n + (py_ord c - 48))"
    by (simp add: of_nat_diff)
  from Cons.prems have "list_all is_digit s" by simp
  then have "foldl (\<lambda>a c. 10 * a + (int (py_ord c) - 48)) (int (10 * n + (py_ord c - 48))) s
     = int (foldl (\<lambda>a c. 10 * a + (py_ord c - 48)) (10 * n + (py_ord c - 48)) s)"
    by (rule Cons.IH)
  then show ?case
    unfolding foldl_Cons e .
qed

lemma digits_val_nat: "list_all is_digit s \<Longrightarrow> digits_val s = int (dec_val s)"
  using digits_val_dec_val [of s 0] by (simp add: digits_val_def dec_val_def)

lemma dropWhile_hd: "ys \<noteq> [] \<Longrightarrow> \<not> P (hd ys) \<Longrightarrow> dropWhile P ys = ys"
  by (cases ys) auto

lemma float_of_str_digits:
  assumes "s \<noteq> []" and d: "list_all is_digit s"
  shows "float_of_str s = Inr (to_double False (of_nat (dec_val s)))"
proof -
  from assms obtain x xs where s: "s = x # xs" by (cases s) auto
  from d have all: "\<forall>c \<in> set s. is_digit c" by (simp add: list_all_iff)
  with s have x: "is_digit x" by simp
  from all have "CHR ''_'' \<notin> set s" using digit_facts(1) by blast
  then have u: "underscores_ok (CHR 0x00) s" and f: "filter (\<lambda>c. c \<noteq> CHR ''_'') s = s"
    by (auto simp: underscores_ok_plain filter_id_conv)
  have d1: "dropWhile fl_space s = s"
    using s x digit_facts(4) by simp
  from all assms have "is_digit (last s)" by simp
  then have "\<not> fl_space (hd (rev s))"
    using assms(1) digit_facts(4) by (simp add: hd_rev)
  then have d2: "dropWhile fl_space (rev s) = rev s"
    using assms(1) by (simp add: dropWhile_hd)
  have lv: "map lower s = s"
    using all digit_facts(5) by (simp add: map_idI)
  have ni: "s \<noteq> ''inf''" "s \<noteq> ''infinity''" "s \<noteq> ''nan''"
    using s x digit_facts(6,7) by auto
  have tw: "takeWhile is_digit s = s" "dropWhile is_digit s = []"
    using all by simp_all
  have pd: "parse_decimal s = Some (of_nat (dec_val s))"
    using assms(1) d by (simp add: parse_decimal_def tw parse_exponent_def pow10_def digits_val_nat)
  have neg: "(case s of [] \<Rightarrow> False | x # _ \<Rightarrow> x = CHR ''-'') = False"
    using digit_facts(2) [OF x] by (simp add: s)
  have v: "(case s of [] \<Rightarrow> [] | x # w \<Rightarrow> if x = CHR ''-'' \<or> x = CHR ''+'' then w else s) = s"
    using digit_facts(2,3) [OF x] by (simp add: s)
  have uu: "rev (dropWhile fl_space (rev (dropWhile fl_space (filter (\<lambda>c. c \<noteq> CHR ''_'') s)))) = s"
    by (simp add: f d1 d2)
  show ?thesis
    unfolding float_of_str_def Let_def uu v neg lv using u ni pd by simp
qed

lemma float_1234_56: "float_of_str ''1234.56'' = Inr (Finite (2714826150374277 / 2199023255552))"
  by (simp add: parse_eval)

lemma float_2_5: "float_of_str ''2.5'' = Inr (Finite (5 / 2))"
  by (simp add: parse_eval)

lemma float_10_1: "float_of_str ''10.1'' = Inr (Finite (5685794529555251 / 562949953421312))"
  by (simp add: parse_eval)

lemma float_commas: "float_of_str ''1,234.56'' = Inl (ValueError ''could not convert string to float'')"
  by (simp add: parse_eval)

lemma fmul_2_5: "fmul (Finite (5 / 2)) vat_rate = Finite (3 / 8)"
  by (simp add: vat_rate_value fmul_def float_eval)

lemma vat_of_2_5: "py_round (fmul (Finite (5 / 2)) vat_rate) 2 = Finite (3422735716801577 / 9007199254740992)"
  by (simp add: vat_rate_value py_round_def fmul_def float_eval)

lemma vat_of_10_1: "py_round (fmul (Finite (5685794529555251 / 562949953421312)) vat_rate) 2 = Finite (6800435437329449 / 4503599627370496)"
  by (simp add: vat_rate_value py_round_def fmul_def float_eval)

lemma literal_0_38: "float_literal (38 / 100) = Finite (3422735716801577 / 9007199254740992)"
  by (simp add: float_literal_def float_eval)

lemma literal_1_51: "float_literal (151 / 100) = Finite (6800435437329449 / 4503599627370496)"
  by (simp add: float_literal_def float_eval)

lemma literal_1234_56: "float_literal (123456 / 100) = Finite (2714826150374277 / 2199023255552)"
  by (simp add: float_literal_def float_eval)

lemma to_double_12500: "to_double False 12500 = Finite 12500"
  by (simp add: float_eval)

lemma remove_commas_no_comma: "CHR '','' \<notin> set (remove_commas s)"
  by (simp add: remove_commas_def)

lemma remove_commas_split: "remove_commas (a @ CHR '','' # b) = remove_commas a @ remove_commas b"
  by (simp add: remove_commas_def)

lemma remove_commas_id: "CHR '','' \<notin> set b \<Longrightarrow> remove_commas b = b"
  by (auto simp: remove_commas_def filter_id_conv)

lemma clean_numeric_value_grouped:
  assumes "\<exists>c \<in> set v. is_digit c" and "\<forall>c \<in> set v. is_digit c \<or> c = CHR '',''"
  shows "clean_numeric_value (Some v)
           = ([], Inr (to_double False (of_nat (dec_val (remove_commas v)))))"
proof -
  from assms(1) obtain c where c: "c \<in> set v" "is_digit c" by blast
  then have "c \<noteq> CHR '',''" "c \<noteq> CHR ''-''" using digit_facts by blast+
  with c have ne: "remove_commas v \<noteq> []" and v: "v \<noteq> []" "v \<noteq> ''-''"
    by (auto simp: remove_commas_def filter_empty_conv)
  from assms(2) have "list_all is_digit (remove_commas v)"
    by (auto simp: remove_commas_def list_all_iff)
  with ne have "float_of_str (remove_commas v)
      = Inr (to_double False (of_nat (dec_val (remove_commas v))))"
    by (rule float_of_str_digits)
  with v show ?thesis by (simp add: clean_numeric_value_def)
qed

section \<open>Properties of the matcher\<close>

lemma ms_seqs_Nil: "ms ic (seqs []) sc = [sc]"
  by (simp add: seqs_def)

lemma ms_seqs_Cons: "ms ic (seqs (r # rs)) sc = concat (map (ms ic (seqs rs)) (ms ic r sc))"
  by (simp add: seqs_def)

lemma caps_mono:
  "(s', c') \<in> set (ms ic r (s, c)) \<Longrightarrow> c n \<noteq> None \<Longrightarrow> c' n \<noteq> None"
proof (induction r arbitrary: s c s' c')
  case (Atom a)
  then show ?case by (auto split: list.splits if_splits)
next
  case (Rep g lo hi a)
  then show ?case by auto
next
  case (Seq r1 r2)
  from Seq.prems(1) obtain s1 c1 where
    m1: "(s1, c1) \<in> set (ms ic r1 (s, c))" and m2: "(s', c') \<in> set (ms ic r2 (s1, c1))"
    by auto
  from Seq.IH(1) [OF m1 Seq.prems(2)] have "c1 n \<noteq> None" .
  from Seq.IH(2) [OF m2 this] show ?case .
next
  case (Alt r1 r2)
  then show ?case by auto
next
  case (Opt r)
  then show ?case by auto
next
  case (Group k r)
  from Group.prems(1) obtain c'' where
    m: "(s', c'') \<in> set (ms ic r (s, c))" and
    c': "c' = c''(k \<mapsto> take (length s - length s') s)"
    by auto
  from Group.IH [OF m Group.prems(2)] have "c'' n \<noteq> None" .
  with c' show ?case by simp
next
  case Eol
  then show ?case by (auto split: if_splits)
next
  case Eps
  then show ?case by auto
qed

lemma always_sets_ms:
  "always_sets n r \<Longrightarrow> (s', c') \<in> set (ms ic r (s, c)) \<Longrightarrow> c' n \<noteq> None"
proof (induction r arbitrary: s c s' c')
  case (Seq r1 r2)
  from Seq.prems(2) obtain s1 c1 where
    m1: "(s1, c1) \<in> set (ms ic r1 (s, c))" and m2: "(s', c') \<in> set (ms ic r2 (s1, c1))"
    by auto
  show ?case
  proof (cases "always_sets n r1")
    case True
    from Seq.IH(1) [OF True m1] have "c1 n \<noteq> None" .
    then show ?thesis using m2 by (rule caps_mono [rotated])
  next
    case False
    with Seq.prems(1) have "always_sets n r2" by simp
    from Seq.IH(2) [OF this m2] show ?thesis .
  qed
next
  case (Alt r1 r2)
  then show ?case by auto
next
  case (Group k r)
  from Group.prems(2) obtain c'' where
    m: "(s', c'') \<in> set (ms ic r (s, c))" and
    c': "c' = c''(k \<mapsto> take (length s - length s') s)"
    by auto
  show ?case
  proof (cases "k = n")
    case True
    with c' show ?thesis by simp
  next
    case False
    with Group.prems(1) have "always_sets n r" by simp
    from Group.IH [OF this m] c' show ?thesis by simp
  qed
qed simp_all

lemma always_sets_seqs: "always_sets n (seqs rs) = (\<exists>r \<in> set rs. always_sets n r)"
  by (induction rs) (simp_all add: seqs_def)

lemma always_sets_lits: "r \<in> set (lits l) \<Longrightarrow> \<not> always_sets n r"
  by (auto simp: lits_def)

lemma always_sets_ngroups: "always_sets n r \<Longrightarrow> n \<le> ngroups r"
  by (induction r) auto

lemma ms_head_sets:
  "ms ic r (s, c) = (s', c') # rest \<Longrightarrow> always_sets n r \<Longrightarrow> c' n \<noteq> None"
proof -
  assume h: "ms ic r (s, c) = (s', c') # rest" and a: "always_sets n r"
  from h have "(s', c') \<in> set (ms ic r (s, c))" by simp
  with a show ?thesis by (rule always_sets_ms)
qed

lemma search_from_sets:
  "search_from ic r s = Some c \<Longrightarrow> always_sets n r \<Longrightarrow> c n \<noteq> None"
proof (induction s)
  case Nil
  show ?case
  proof (cases "ms ic r ([], Map.empty)")
    case Nil
    with Nil.prems show ?thesis by simp
  next
    case (Cons m rest)
    obtain s' c' where m: "m = (s', c')" by (cases m)
    from Cons m Nil.prems(2) have "c' n \<noteq> None" by (auto dest: ms_head_sets)
    moreover from Nil.prems(1) Cons m have "c = c'(0 \<mapsto> [])" by simp
    ultimately show ?thesis by simp
  qed
next
  case (Cons x t)
  note IH = Cons.IH and found = Cons.prems(1) and sets = Cons.prems(2)
  show ?case
  proof (cases "ms ic r (x # t, Map.empty)")
    case Nil
    with IH found sets show ?thesis by simp
  next
    case (Cons m rest)
    obtain s' c' where m: "m = (s', c')" by (cases m)
    from Cons m sets have "c' n \<noteq> None" by (auto dest: ms_head_sets)
    moreover from found Cons m
    have "c = c'(0 \<mapsto> take (length (x # t) - length s') (x # t))" by simp
    ultimately show ?thesis by simp
  qed
qed

lemma labelled_patterns_set_group:
  "p \<in> set labelled_patterns \<Longrightarrow> always_sets 1 p"
  by (auto simp: labelled_patterns_def process_pdf_fields_def always_sets_seqs
      pat_account_number_def pat_billing_date_def pat_invoice_number_def pat_account_month_def
      pat_due_date_def pat_customer_name_def pat_opening_reading_def pat_closing_reading_def
      pat_consumption_def pat_total_due_def pat_network_charge_def pat_energy_charge_def
      charges_pattern_def pat_reading_type_def reading_pattern_def)

lemma extract_value_cases:
  assumes "always_sets 1 p"
  shows "(search_from True p text = None \<longrightarrow> extract_value text p = Inr None) \<and>
         (\<forall>c. search_from True p text = Some c \<longrightarrow>
            (\<exists>g. c 1 = Some g \<and> extract_value text p = Inr (Some (strip g))))"
proof -
  have n: "\<not> ngroups p < 1"
    using always_sets_ngroups [OF assms] by simp
  show ?thesis
    using n search_from_sets [OF _ assms, of True "text"]
    by (auto simp: extract_value_def group1_stripped_def re_search_def)
qed

lemma ms_lits:
  "ms ic (seqs (lits l @ rs)) (s, c) =
     (if lit_prefix ic l s then ms ic (seqs rs) (drop (length l) s, c) else [])"
proof (induction l arbitrary: s)
  case Nil
  then show ?case by (simp add: lits_def)
next
  case (Cons a l)
  have step: "ms ic (seqs (lits (a # l) @ rs)) (s', c) =
      concat (map (ms ic (seqs (lits l @ rs))) (ms ic (Atom (Lit a)) (s', c)))" for s'
    by (simp add: lits_def seqs_def)
  note IH = Cons.IH
  show ?case
  proof (cases s)
    case Nil
    then show ?thesis by (simp add: step)
  next
    case (Cons x t)
    then show ?thesis by (simp add: step IH del: atom_ok.simps)
  qed
qed

lemma ms_lits_only:
  "ms ic (seqs (lits l)) (s, c) = (if lit_prefix ic l s then [(drop (length l) s, c)] else [])"
  using ms_lits [of ic l "[]" s c] by (simp add: ms_seqs_Nil)

lemmas ms_eval = ms_seqs_Cons ms_seqs_Nil ms_lits ms_lits_only plus_def star_def lazy_plus_def
  exactly_def ws_def digit_def non_digit_def amount_char_def signed_amount_char_def
  rep_counts_def char_eval upt_rec [of _ "Suc _"]

lemma ngroups_seqs_Nil: "ngroups (seqs []) = 0"
  by (simp add: seqs_def)

lemma ngroups_seqs_Cons: "ngroups (seqs (r # rs)) = max (ngroups r) (ngroups (seqs rs))"
  by (simp add: seqs_def)

lemma ngroups_lits: "ngroups (seqs (lits l @ rs)) = ngroups (seqs rs)"
  by (induction l) (simp_all add: lits_def seqs_def)

lemmas extract_eval = extract_value_def re_search_def group1_stripped_def strip_def
  ngroups_seqs_Nil ngroups_seqs_Cons ngroups_lits ms_eval

section \<open>Properties of the normalisers\<close>

text \<open>
  Claim C2.  Numeric normalisation of a raw value (a string or \<^verbatim>\<open>None\<close>): for
  \<^verbatim>\<open>None\<close>, the empty string and \<^verbatim>\<open>"-"\<close> the result is 0.0 and nothing is printed;
  otherwise the commas are removed and the rest is parsed as a float, which is the
  result when the parse succeeds; when it fails, exactly one warning is printed and the
  result is 0.0.  In every case the call returns a float and raises nothing.

  Removing the commas leaves no comma, keeps every other character in its place and
  changes nothing in a string without commas.  Parsing gives the double nearest to the
  decimal value: a string of digits grouped by commas, with at least one digit, yields
  the double nearest to the number its digits denote; \<^verbatim>\<open>"1,234.56"\<close> yields the float
  1234.56 and \<^verbatim>\<open>"1,000"\<close> yields 1000.0, both without a warning, and \<^verbatim>\<open>"N/A"\<close> yields
  0.0 with one warning.
\<close>

theorem clean_numeric_value_spec:
  "(val = None \<or> val = Some [] \<or> val = Some ''-'' \<longrightarrow>
      clean_numeric_value val = ([], Inr (Finite 0)))
   \<and> (\<forall>v. val = Some v \<and> v \<noteq> [] \<and> v \<noteq> ''-'' \<longrightarrow>
        (\<forall>f. float_of_str (remove_commas v) = Inr f \<longrightarrow>
             clean_numeric_value val = ([], Inr f)) \<and>
        ((\<exists>e. float_of_str (remove_commas v) = Inl e) \<longrightarrow>
             clean_numeric_value val = ([warning v], Inr (Finite 0))))
   \<and> (\<exists>w f. clean_numeric_value val = (w, Inr f) \<and> length w \<le> 1)
   \<and> CHR '','' \<notin> set (remove_commas s)
   \<and> remove_commas (a @ CHR '','' # b) = remove_commas a @ remove_commas b
   \<and> (CHR '','' \<notin> set s \<longrightarrow> remove_commas s = s)
   \<and> (\<forall>v. val = Some v \<and> (\<exists>c \<in> set v. is_digit c) \<and>
          (\<forall>c \<in> set v. is_digit c \<or> c = CHR '','') \<longrightarrow>
        clean_numeric_value val
          = ([], Inr (to_double False (of_nat (dec_val (remove_commas v))))))
   \<and> clean_numeric_value (Some ''1,234.56'') = ([], Inr (float_literal (123456 / 100)))
   \<and> clean_numeric_value (Some ''1,234.56'')
        = ([], Inr (Finite (2714826150374277 / 2199023255552)))
   \<and> clean_numeric_value (Some ''1,000'') = ([], Inr (Finite 1000))
   \<and> clean_numeric_value (Some ''N/A'') = ([warning ''N/A''], Inr (Finite 0))"
proof -
  have a: "val = None \<or> val = Some [] \<or> val = Some ''-'' \<longrightarrow>
      clean_numeric_value val = ([], Inr (Finite 0))"
    by (auto simp: clean_numeric_value_def)
  have b: "\<forall>v. val = Some v \<and> v \<noteq> [] \<and> v \<noteq> ''-'' \<longrightarrow>
        (\<forall>f. float_of_str (remove_commas v) = Inr f \<longrightarrow>
             clean_numeric_value val = ([], Inr f)) \<and>
        ((\<exists>e. float_of_str (remove_commas v) = Inl e) \<longrightarrow>
             clean_numeric_value val = ([warning v], Inr (Finite 0)))"
    by (auto simp: clean_numeric_value_def dest: float_of_str_raises_ValueError)
  have c: "\<exists>w f. clean_numeric_value val = (w, Inr f) \<and> length w \<le> 1"
    by (auto simp: clean_numeric_value_def dest: float_of_str_raises_ValueError
             split: option.splits sum.splits)
  have d: "CHR '','' \<notin> set (remove_commas s)"
    by (rule remove_commas_no_comma)
  have e: "remove_commas (a @ CHR '','' # b) = remove_commas a @ remove_commas b"
    by (rule remove_commas_split)
  have f: "CHR '','' \<notin> set s \<longrightarrow> remove_commas s = s"
    by (simp add: remove_commas_id)
  have g: "\<forall>v. val = Some v \<and> (\<exists>c \<in> set v. is_digit c) \<and>
          (\<forall>c \<in> set v. is_digit c \<or> c = CHR '','') \<longrightarrow>
        clean_numeric_value val
          = ([], Inr (to_double False (of_nat (dec_val (remove_commas v)))))"
    using clean_numeric_value_grouped by blast
  have rc: "remove_commas ''1,234.56'' = ''1234.56''" "remove_commas ''1,000'' = ''1000''"
    "remove_commas ''N/A'' = ''N/A''"
    by (simp_all add: remove_commas_def)
  have h: "clean_numeric_value (Some ''1,234.56'')
        = ([], Inr (Finite (2714826150374277 / 2199023255552)))"
    by (simp add: clean_numeric_value_def rc float_1234_56)
  have i: "clean_numeric_value (Some ''1,234.56'') = ([], Inr (float_literal (123456 / 100)))"
    unfolding h literal_1234_56 ..
  have j: "clean_numeric_value (Some ''1,000'') = ([], Inr (Finite 1000))"
    by (simp add: clean_numeric_value_def rc float_1000)
  have k: "clean_numeric_value (Some ''N/A'') = ([warning ''N/A''], Inr (Finite 0))"
    by (simp add: clean_numeric_value_def rc float_NA)
  from a b c d e f g h i j k show ?thesis by blast
qed

theorem clean_numeric_value_witness:
  "clean_numeric_value None = ([], Inr (Finite 0))
   \<and> clean_numeric_value (Some ''-'') = ([], Inr (Finite 0))
   \<and> float_of_str (remove_commas ''N/A'') = Inl (ValueError ''could not convert string to float'')
   \<and> clean_numeric_value (Some ''N/A'') = ([warning ''N/A''], Inr (Finite 0))
   \<and> remove_commas ''1,234.56'' = ''1234.56''
   \<and> float_of_str (remove_commas ''1,234.56'') = Inr (Finite (2714826150374277 / 2199023255552))
   \<and> clean_numeric_value (Some ''1,234.56'') = ([], Inr (Finite (2714826150374277 / 2199023255552)))
   \<and> remove_commas ''12,500'' = ''12500''
   \<and> dec_val ''12500'' = 12500
   \<and> clean_numeric_value (Some ''12,500'') = ([], Inr (Finite 12500))
   \<and> remove_commas ''12:30'' = ''12:30''"
  using clean_numeric_value_spec [of None] clean_numeric_value_spec [of "Some ''-''"]
    clean_numeric_value_spec [of "Some ''N/A''"]
    clean_numeric_value_spec [of "Some ''1,234.56''"]
    clean_numeric_value_spec [of "Some ''12,500''" "''12:30''"]
    float_NA float_1234_56 to_double_12500
  by (simp add: remove_commas_def dec_val_def is_digit_def py_ord_def between_def)

text \<open>
  Claim C3.  VAT computation: when \<^verbatim>\<open>float\<close> accepts the input, the result is that
  float times 0.15, rounded to two decimals; when \<^verbatim>\<open>float\<close> raises, the result is
  \<^verbatim>\<open>None\<close>, which is not a zero.  Rounded to two decimals: the result is the double
  nearest to a multiple of 0.01 that lies within 0.005 of the product.  On \<^verbatim>\<open>"1000"\<close>
  the result is 150.0, on \<^verbatim>\<open>"2.5"\<close> (product 0.375) it is the float 0.38, on \<^verbatim>\<open>"10.1"\<close>
  (product just below 1.515) it is the float 1.51; on \<^verbatim>\<open>"abc"\<close>, on \<^verbatim>\<open>"1,234.56"\<close>
  (no comma is removed here) and on \<^verbatim>\<open>None\<close> it is \<^verbatim>\<open>None\<close>.
\<close>

theorem calculate_vat_spec:
  "(\<forall>f. py_float x = Inr f \<longrightarrow>
        calculate_vat x = Some (py_round (fmul f vat_rate) 2))
   \<and> ((\<exists>e. py_float x = Inl e) \<longrightarrow> calculate_vat x = None)
   \<and> (\<forall>f q. py_float x = Inr f \<and> fmul f vat_rate = Finite q \<longrightarrow>
        (\<exists>k. \<bar>of_int k / 100 - \<bar>q\<bar>\<bar> \<le> 1 / 200 \<and>
             calculate_vat x = Some (to_double (q < 0) (of_int k / 100))))
   \<and> calculate_vat (PStr ''1000'') = Some (Finite 150)
   \<and> calculate_vat (PStr ''2.5'') = Some (float_literal (38 / 100))
   \<and> calculate_vat (PStr ''2.5'') = Some (Finite (3422735716801577 / 9007199254740992))
   \<and> calculate_vat (PStr ''10.1'') = Some (float_literal (151 / 100))
   \<and> calculate_vat (PStr ''10.1'') = Some (Finite (6800435437329449 / 4503599627370496))
   \<and> calculate_vat (PStr ''abc'') = None
   \<and> calculate_vat (PStr ''1,234.56'') = None
   \<and> calculate_vat PNone = None"
proof -
  have a: "\<forall>f. py_float x = Inr f \<longrightarrow>
        calculate_vat x = Some (py_round (fmul f vat_rate) 2)"
    by (simp add: calculate_vat_def)
  have b: "(\<exists>e. py_float x = Inl e) \<longrightarrow> calculate_vat x = None"
    by (auto simp: calculate_vat_def)
  have c: "\<forall>f q. py_float x = Inr f \<and> fmul f vat_rate = Finite q \<longrightarrow>
        (\<exists>k. \<bar>of_int k / 100 - \<bar>q\<bar>\<bar> \<le> 1 / 200 \<and>
             calculate_vat x = Some (to_double (q < 0) (of_int k / 100)))"
  proof (intro allI impI)
    fix f q
    assume h: "py_float x = Inr f \<and> fmul f vat_rate = Finite q"
    have "\<bar>of_int (round_half_even (\<bar>q\<bar> * 100)) - \<bar>q\<bar> * 100\<bar> \<le> 1 / 2"
      by (rule round_half_even_near)
    then have "\<bar>of_int (round_half_even (\<bar>q\<bar> * 100)) / 100 - \<bar>q\<bar>\<bar> \<le> 1 / 200"
      by (simp add: abs_le_iff field_simps)
    moreover from h have "calculate_vat x
        = Some (to_double (q < 0) (of_int (round_half_even (\<bar>q\<bar> * 100)) / 100))"
      by (simp add: calculate_vat_def py_round_def)
    ultimately show "\<exists>k. \<bar>of_int k / 100 - \<bar>q\<bar>\<bar> \<le> 1 / 200 \<and>
             calculate_vat x = Some (to_double (q < 0) (of_int k / 100))"
      by blast
  qed
  have d: "calculate_vat (PStr ''1000'') = Some (Finite 150)"
    by (simp add: calculate_vat_def float_1000 vat_of_1000)
  have e: "calculate_vat (PStr ''2.5'') = Some (Finite (3422735716801577 / 9007199254740992))"
    by (simp add: calculate_vat_def float_2_5 vat_of_2_5)
  have e': "calculate_vat (PStr ''2.5'') = Some (float_literal (38 / 100))"
    unfolding e literal_0_38 ..
  have f: "calculate_vat (PStr ''10.1'') = Some (Finite (6800435437329449 / 4503599627370496))"
    by (simp add: calculate_vat_def float_10_1 vat_of_10_1)
  have f': "calculate_vat (PStr ''10.1'') = Some (float_literal (151 / 100))"
    unfolding f literal_1_51 ..
  have g: "calculate_vat (PStr ''abc'') = None"
    by (simp add: calculate_vat_def float_abc)
  have h: "calculate_vat (PStr ''1,234.56'') = None"
    by (simp add: calculate_vat_def float_commas)
  have i: "calculate_vat PNone = None"
    by (simp add: calculate_vat_def)
  from a b c d e e' f f' g h i show ?thesis by blast
qed

theorem calculate_vat_witness:
  "py_float (PStr ''2.5'') = Inr (Finite (5 / 2))
   \<and> fmul (Finite (5 / 2)) vat_rate = Finite (3 / 8)
   \<and> py_round (Finite (3 / 8)) 2 = Finite (3422735716801577 / 9007199254740992)
   \<and> calculate_vat (PStr ''2.5'') = Some (Finite (3422735716801577 / 9007199254740992))
   \<and> py_float (PFloat (Finite 1000)) = Inr (Finite 1000)
   \<and> calculate_vat (PFloat (Finite 1000)) = Some (Finite 150)
   \<and> py_float (PStr ''abc'') = Inl (ValueError ''could not convert string to float'')
   \<and> calculate_vat (PStr ''abc'') = None"
  using calculate_vat_spec [of "PStr ''2.5''"] calculate_vat_spec [of "PFloat (Finite 1000)"]
    calculate_vat_spec [of "PStr ''abc''"]
    float_2_5 fmul_2_5 vat_of_2_5 float_abc vat_of_1000
  by simp

section \<open>Properties of the processor\<close>

lemma extract_texts_none:
  "PageNone \<in> set pages \<Longrightarrow> extract_texts pages = Inr ts \<Longrightarrow> None \<in> set ts"
proof (induction pages arbitrary: ts)
  case Nil
  then show ?case by simp
next
  case (Cons p ps)
  then show ?case
    by (cases p) (auto split: sum.splits)
qed

lemma first_none_found: "None \<in> set ts \<Longrightarrow> \<exists>k. first_none i ts = Some k"
proof (induction ts arbitrary: i)
  case Nil
  then show ?case by simp
next
  case (Cons t ts)
  then show ?case by (cases t) auto
qed

lemma document_text_page_none:
  assumes "opened pdf = Inr pages" and "PageNone \<in> set pages"
  shows "\<exists>e. document_text pdf = Inl e"
proof (cases "extract_texts pages")
  case (Inl e)
  with assms show ?thesis by (simp add: document_text_def)
next
  case (Inr ts)
  with assms have "None \<in> set ts" by (simp add: extract_texts_none)
  then obtain k where "first_none 0 ts = Some k"
    using first_none_found by blast
  with Inr assms show ?thesis by (simp add: document_text_def join_pages_def)
qed

lemma clean_numeric_value_returns: "\<exists>w f. clean_numeric_value v = (w, Inr f)"
  by (auto simp: clean_numeric_value_def dest: float_of_str_raises_ValueError
           split: option.splits sum.splits)

lemma extract_value_returns: "always_sets 1 p \<Longrightarrow> \<exists>v. extract_value text p = Inr v"
  using extract_value_cases [of p "text"] by (cases "search_from True p text") auto

lemma field_value_returns:
  assumes "always_sets 1 p"
  shows "\<exists>w v. field_value text knd p = (w, Inr v)"
proof -
  obtain x where x: "extract_value text p = Inr x"
    using extract_value_returns [OF assms] by blast
  obtain w f where "clean_numeric_value x = (w, Inr f)"
    using clean_numeric_value_returns by blast
  with x show ?thesis by (cases knd) simp_all
qed

lemma build_returns:
  assumes "\<forall>(k, knd, p) \<in> set fs. always_sets 1 p"
  shows "\<exists>w d. build text fs = (w, Inr d) \<and>
           list_all2 (\<lambda>(k, knd, p) (k', v). k' = k \<and> (\<exists>w'. field_value text knd p = (w', Inr v))) fs d"
  using assms
proof (induction fs)
  case Nil
  then show ?case by simp
next
  case (Cons f fs)
  obtain k knd p where f: "f = (k, knd, p)" by (cases f)
  with Cons.prems have "always_sets 1 p" by simp
  then obtain w v where fv: "field_value text knd p = (w, Inr v)"
    using field_value_returns by blast
  from Cons obtain w' d where
    b: "build text fs = (w', Inr d)" and
    l: "list_all2 (\<lambda>(k, knd, p) (k', v). k' = k \<and> (\<exists>w'. field_value text knd p = (w', Inr v))) fs d"
    by auto
  from f fv b l show ?case by simp
qed

lemma process_pdf_fields_patterns:
  "\<forall>(k, knd, p) \<in> set process_pdf_fields. always_sets 1 p"
proof -
  have "\<forall>p \<in> set (map (\<lambda>(k, knd, p). p) process_pdf_fields). always_sets 1 p"
    using labelled_patterns_set_group by (simp add: labelled_patterns_def)
  then show ?thesis by auto
qed

lemma first_none_absent: "first_none i ts = None \<Longrightarrow> None \<notin> set ts"
proof (induction ts arbitrary: i)
  case Nil
  then show ?case by simp
next
  case (Cons t ts)
  then show ?case by (cases t) auto
qed

lemma first_none_all_some: "None \<notin> set ts \<Longrightarrow> first_none i ts = None"
proof (induction ts arbitrary: i)
  case Nil
  then show ?case by simp
next
  case (Cons t ts)
  then show ?case by (cases t) auto
qed

lemma extract_texts_all_text:
  "extract_texts pages = Inr ts \<Longrightarrow> None \<notin> set ts \<Longrightarrow> list_all is_text pages"
proof (induction pages arbitrary: ts)
  case Nil
  then show ?case by simp
next
  case (Cons p ps)
  then show ?case by (cases p) (auto split: sum.splits)
qed

lemma extract_texts_of_text:
  "list_all is_text pages \<Longrightarrow> \<exists>ts. extract_texts pages = Inr ts \<and> None \<notin> set ts"
proof (induction pages)
  case Nil
  then show ?case by simp
next
  case (Cons p ps)
  then show ?case by (cases p) auto
qed

lemma document_text_readable: "(\<exists>t. document_text pdf = Inr t) = readable pdf"
proof (cases "opened pdf")
  case (Inl e)
  then show ?thesis by (simp add: document_text_def readable_def)
next
  case (Inr pages)
  show ?thesis
  proof
    assume "\<exists>t. document_text pdf = Inr t"
    then obtain t where t: "document_text pdf = Inr t" ..
    with Inr obtain ts where ts: "extract_texts pages = Inr ts" and j: "join_pages ts = Inr t"
      by (auto simp: document_text_def split: sum.splits)
    from j have "first_none 0 ts = None"
      by (auto simp: join_pages_def split: option.splits)
    then have "None \<notin> set ts" by (rule first_none_absent)
    with ts have "list_all is_text pages" by (rule extract_texts_all_text)
    with Inr show "readable pdf" by (simp add: readable_def)
  next
    assume "readable pdf"
    with Inr have "list_all is_text pages" by (simp add: readable_def)
    then obtain ts where ts: "extract_texts pages = Inr ts" and n: "None \<notin> set ts"
      using extract_texts_of_text by blast
    from n have "first_none 0 ts = None" by (rule first_none_all_some)
    with Inr ts show "\<exists>t. document_text pdf = Inr t"
      by (simp add: document_text_def join_pages_def)
  qed
qed

lemma process_pdf_result:
  "\<exists>ls. process_pdf pdf st =
          (processable pdf,
           st\<lparr>stdout := stdout st @ ls,
              data := (if readable pdf then data st @ [bill_of pdf] else data st)\<rparr>)
        \<and> (\<not> processable pdf \<longrightarrow> (\<exists>e. error_line pdf e \<in> set ls))"
proof (cases "readable pdf")
  case True
  then obtain t where t: "document_text pdf = Inr t"
    using document_text_readable by blast
  obtain w d where b: "build t process_pdf_fields = (w, Inr d)"
    using build_returns [OF process_pdf_fields_patterns] by blast
  from t b have d: "bill_of pdf = d" by (simp add: bill_of_def)
  show ?thesis
  proof (cases "close_error pdf")
    case None
    with True t b d have "process_pdf pdf st =
        (processable pdf,
         st\<lparr>stdout := stdout st @ w,
            data := (if readable pdf then data st @ [bill_of pdf] else data st)\<rparr>)"
      by (simp add: process_pdf_def processable_def print_def)
    moreover from True None have "processable pdf" by (simp add: processable_def)
    ultimately show ?thesis by blast
  next
    case (Some e)
    with True t b d have "process_pdf pdf st =
        (processable pdf,
         st\<lparr>stdout := stdout st @ (w @ [error_line pdf e]),
            data := (if readable pdf then data st @ [bill_of pdf] else data st)\<rparr>)"
      by (simp add: process_pdf_def processable_def print_def error_line_def)
    moreover have "error_line pdf e \<in> set (w @ [error_line pdf e])" by simp
    ultimately show ?thesis by blast
  qed
next
  case False
  then obtain e where "document_text pdf = Inl e"
    using document_text_readable [of pdf] by (cases "document_text pdf") auto
  with False have "process_pdf pdf st =
      (processable pdf,
       st\<lparr>stdout := stdout st @ [error_line pdf (leaving pdf e)],
          data := (if readable pdf then data st @ [bill_of pdf] else data st)\<rparr>)"
    by (simp add: process_pdf_def processable_def print_def error_line_def)
  moreover have "error_line pdf (leaving pdf e) \<in> set [error_line pdf (leaving pdf e)]" by simp
  ultimately show ?thesis by blast
qed

lemma process_pdf_succeeds_iff: "fst (process_pdf pdf st) = processable pdf"
  using process_pdf_result [of pdf st] by auto

lemma process_pdf_data:
  "data (snd (process_pdf pdf st)) = (if readable pdf then data st @ [bill_of pdf] else data st)"
  using process_pdf_result [of pdf st] by auto

lemma process_pdf_files: "files (snd (process_pdf pdf st)) = files st"
  using process_pdf_result [of pdf st] by auto

lemma process_files_count_data:
  "fst (process_files pdfs n st) = n + length (filter processable pdfs) \<and>
   data (snd (process_files pdfs n st)) = data st @ map bill_of (filter readable pdfs) \<and>
   files (snd (process_files pdfs n st)) = files st"
proof (induction pdfs arbitrary: n st)
  case Nil
  then show ?case by simp
next
  case (Cons pdf pdfs)
  obtain ls where p: "process_pdf pdf st =
      (processable pdf,
       st\<lparr>stdout := stdout st @ ls,
          data := (if readable pdf then data st @ [bill_of pdf] else data st)\<rparr>)"
    using process_pdf_result by blast
  show ?case
  proof (cases "processable pdf")
    case True
    then have "readable pdf" by (simp add: processable_def)
    with True p show ?thesis by (simp add: Cons.IH print_def)
  next
    case False
    with p show ?thesis by (simp add: Cons.IH)
  qed
qed

lemma process_files_stdout_grows:
  "\<exists>ls. stdout (snd (process_files pdfs n st)) = stdout st @ ls"
proof (induction pdfs arbitrary: n st)
  case Nil
  then show ?case by simp
next
  case (Cons pdf pdfs)
  obtain b st' where p: "process_pdf pdf st = (b, st')" by (cases "process_pdf pdf st")
  obtain ls where st': "stdout st' = stdout st @ ls"
    using process_pdf_result [of pdf st] p by auto
  show ?case
  proof (cases b)
    case True
    obtain ls' where "stdout (snd (process_files pdfs (n + 1)
        (print [''Successfully processed: '' @ name pdf] st')))
      = stdout (print [''Successfully processed: '' @ name pdf] st') @ ls'"
      using Cons.IH by blast
    with p True st' show ?thesis by (simp add: print_def)
  next
    case False
    obtain ls' where "stdout (snd (process_files pdfs n st')) = stdout st' @ ls'"
      using Cons.IH by blast
    with p False st' show ?thesis by simp
  qed
qed

lemma process_files_logs_failure:
  "pdf \<in> set pdfs \<Longrightarrow> \<not> processable pdf \<Longrightarrow>
     \<exists>e. error_line pdf e \<in> set (stdout (snd (process_files pdfs n st)))"
proof (induction pdfs arbitrary: n st)
  case Nil
  then show ?case by simp
next
  case (Cons q pdfs)
  show ?case
  proof (cases "q = pdf")
    case True
    obtain ls where p: "process_pdf pdf st =
        (processable pdf,
         st\<lparr>stdout := stdout st @ ls,
            data := (if readable pdf then data st @ [bill_of pdf] else data st)\<rparr>)"
      and l: "\<not> processable pdf \<longrightarrow> (\<exists>e. error_line pdf e \<in> set ls)"
      using process_pdf_result by blast
    from l Cons.prems(2) obtain e where e: "error_line pdf e \<in> set ls" by blast
    obtain ls' where "stdout (snd (process_files pdfs n
        (st\<lparr>stdout := stdout st @ ls,
            data := (if readable pdf then data st @ [bill_of pdf] else data st)\<rparr>)))
        = stdout (st\<lparr>stdout := stdout st @ ls,
            data := (if readable pdf then data st @ [bill_of pdf] else data st)\<rparr>) @ ls'"
      using process_files_stdout_grows by blast
    with p e True Cons.prems(2)
    have "error_line pdf e \<in> set (stdout (snd (process_files (q # pdfs) n st)))"
      by simp
    then show ?thesis ..
  next
    case False
    with Cons.prems have mem: "pdf \<in> set pdfs" by simp
    show ?thesis
    proof (cases "process_pdf q st")
      case (Pair b st')
      then show ?thesis
        using Cons.IH [OF mem Cons.prems(2)] by (cases b) auto
    qed
  qed
qed

lemma process_directory_data:
  "data (process_directory pdfs st) = data st @ map bill_of (filter readable pdfs)"
proof -
  obtain n st' where p: "process_files pdfs 0 st = (n, st')"
    by (cases "process_files pdfs 0 st")
  with process_files_count_data [of pdfs 0 st]
  have "data st' = data st @ map bill_of (filter readable pdfs)" by simp
  with p show ?thesis by (simp add: process_directory_def print_def)
qed

lemma process_directory_stdout:
  "stdout (process_directory pdfs st) = stdout (snd (process_files pdfs 0 st)) @
     [if length (filter processable pdfs) = 0 then ''No PDF files were successfully processed''
      else ''Successfully processed '' @ str_nat (length (filter processable pdfs)) @ '' PDF files'']"
proof -
  obtain n st' where p: "process_files pdfs 0 st = (n, st')"
    by (cases "process_files pdfs 0 st")
  with process_files_count_data [of pdfs 0 st]
  have "n = length (filter processable pdfs)" by simp
  with p show ?thesis by (simp add: process_directory_def print_def)
qed

lemma list_all2_map_of:
  assumes "list_all2 (\<lambda>(k, knd, p) (k', v). k' = k \<and> Q knd p v) fs d"
    and "distinct (map fst fs)" and "(k, knd, p) \<in> set fs"
  shows "\<exists>v. map_of d k = Some v \<and> Q knd p v"
  using assms
proof (induction fs d rule: list_all2_induct)
  case Nil
  then show ?case by simp
next
  case (Cons f fs e0 d)
  obtain k0 knd0 p0 where f: "f = (k0, knd0, p0)" by (cases f)
  obtain k1 v1 where e: "e0 = (k1, v1)" by (cases e0)
  show ?case
  proof (cases "(k, knd, p) = f")
    case True
    with Cons.hyps(1) f e show ?thesis by auto
  next
    case False
    with Cons.prems have mem: "(k, knd, p) \<in> set fs" by simp
    from Cons.prems(1) have dist: "distinct (map fst fs)" by simp
    from mem Cons.prems(1) f have "k \<noteq> k0" by force
    with Cons.IH [OF dist mem] Cons.hyps(1) f e show ?thesis by auto
  qed
qed

lemma list_all2_keys:
  "list_all2 (\<lambda>(k, knd, p) (k', v). k' = k \<and> Q knd p v) fs d \<Longrightarrow> map fst d = map fst fs"
  by (induction fs d rule: list_all2_induct) auto

lemma process_pdf_fields_keys:
  "map fst process_pdf_fields =
     [''account_number'', ''billing_date'', ''invoice_number'', ''account_month'', ''due_date'',
      ''customer_name'', ''opening_reading'', ''closing_reading'', ''consumption'',
      ''total_due'', ''network_charge'', ''energy_charge'']"
  by (simp add: process_pdf_fields_def)

lemma process_pdf_record:
  assumes "readable pdf"
  shows "\<exists>d t. data (snd (process_pdf pdf st)) = data st @ [d] \<and> document_text pdf = Inr t \<and>
           map fst d = map fst process_pdf_fields \<and>
           (\<forall>(k, knd, p) \<in> set process_pdf_fields.
              \<exists>v. map_of d k = Some v \<and> (\<exists>w. field_value t knd p = (w, Inr v)))"
proof -
  from assms obtain t where t: "document_text pdf = Inr t"
    using document_text_readable by blast
  obtain w d where b: "build t process_pdf_fields = (w, Inr d)" and
    l: "list_all2 (\<lambda>(k, knd, p) (k', v). k' = k \<and> (\<exists>w'. field_value t knd p = (w', Inr v)))
          process_pdf_fields d"
    using build_returns [OF process_pdf_fields_patterns] by blast
  from t b have "bill_of pdf = d" by (simp add: bill_of_def)
  with assms have st': "data (snd (process_pdf pdf st)) = data st @ [d]"
    by (simp add: process_pdf_data)
  have dist: "distinct (map fst process_pdf_fields)"
    by (simp add: process_pdf_fields_keys)
  have "\<forall>(k, knd, p) \<in> set process_pdf_fields.
          \<exists>v. map_of d k = Some v \<and> (\<exists>w. field_value t knd p = (w, Inr v))"
    using list_all2_map_of [OF l dist] by auto
  with st' t list_all2_keys [OF l] show ?thesis by blast
qed

lemma appended_readable:
  "fst (process_pdf pdf st) = True \<or> data (snd (process_pdf pdf st)) \<noteq> data st \<Longrightarrow> readable pdf"
  by (auto simp: process_pdf_succeeds_iff process_pdf_data processable_def split: if_splits)

lemma sample_text:
  "document_text sample_pdf = Inr ''READING TYPE: ACTUAL TOTAL AMOUNT DUE R 1.2.3''"
  by (simp add: sample_pdf_def text_pdf_def document_text_def join_pages_def)

lemma sample_account_number:
  "extract_value ''READING TYPE: ACTUAL TOTAL AMOUNT DUE R 1.2.3'' pat_account_number = Inr None"
  by (simp add: extract_value_def re_search_def group1_stripped_def pat_account_number_def ms_eval)

lemma sample_total_due:
  "extract_value ''READING TYPE: ACTUAL TOTAL AMOUNT DUE R 1.2.3'' pat_total_due = Inr (Some ''1.2.3'')"
  by (simp add: pat_total_due_def extract_eval)

lemma field_value_textual:
  "field_value t Textual p = (w, Inr v) \<Longrightarrow> \<exists>x. extract_value t p = Inr x \<and> v = opt_str x"
  by (auto split: sum.splits)

lemma field_value_numeric:
  "field_value t Numeric p = (w, Inr v) \<Longrightarrow>
     \<exists>x f. extract_value t p = Inr x \<and> clean_numeric_value x = (w, Inr f) \<and> v = PFloat f"
  by (auto split: sum.splits prod.splits)

lemma clean_numeric_value_absent: "clean_numeric_value None = (w, Inr f) \<Longrightarrow> f = Finite 0"
  by (simp add: clean_numeric_value_def)

lemma clean_numeric_value_unparseable:
  "float_of_str (remove_commas s) = Inl e \<Longrightarrow> clean_numeric_value (Some s) = (w, Inr f) \<Longrightarrow>
     f = Finite 0"
  by (auto simp: clean_numeric_value_def split: if_splits)

text \<open>
  Claim C9, as amended.  When \<^verbatim>\<open>process_pdf\<close> reports failure, the record list is what
  it was before the call if the failure came before the append (the document did not
  open, a page gave no text or raised).  Otherwise the body of the \<^verbatim>\<open>with\<close> block ran
  to its end, the only failure is the one raised on closing the document, and the list
  has gained the complete twelve-key record of the document.  In neither case is a
  partial record appended; and a document that closes without error leaves the list
  unchanged whenever it fails.
\<close>

theorem process_pdf_failure_record:
  "fst (process_pdf pdf st) = False \<longrightarrow>
     (if readable pdf
      then close_error pdf \<noteq> None \<and>
           data (snd (process_pdf pdf st)) = data st @ [bill_of pdf] \<and>
           map fst (bill_of pdf) =
             [''account_number'', ''billing_date'', ''invoice_number'', ''account_month'',
              ''due_date'', ''customer_name'', ''opening_reading'', ''closing_reading'',
              ''consumption'', ''total_due'', ''network_charge'', ''energy_charge'']
      else data (snd (process_pdf pdf st)) = data st) \<and>
     (close_error pdf = None \<longrightarrow> data (snd (process_pdf pdf st)) = data st)"
proof
  assume f: "fst (process_pdf pdf st) = False"
  then have np: "\<not> processable pdf"
    by (simp add: process_pdf_succeeds_iff)
  show "(if readable pdf
      then close_error pdf \<noteq> None \<and>
           data (snd (process_pdf pdf st)) = data st @ [bill_of pdf] \<and>
           map fst (bill_of pdf) =
             [''account_number'', ''billing_date'', ''invoice_number'', ''account_month'',
              ''due_date'', ''customer_name'', ''opening_reading'', ''closing_reading'',
              ''consumption'', ''total_due'', ''network_charge'', ''energy_charge'']
      else data (snd (process_pdf pdf st)) = data st) \<and>
     (close_error pdf = None \<longrightarrow> data (snd (process_pdf pdf st)) = data st)"
  proof (cases "readable pdf")
    case True
    with np have ce: "close_error pdf \<noteq> None"
      by (simp add: processable_def)
    from True obtain d where
      "data (snd (process_pdf pdf st)) = data st @ [d]" and
      keys: "map fst d = map fst process_pdf_fields"
      using process_pdf_record by blast
    with True have "d = bill_of pdf"
      by (simp add: process_pdf_data)
    with keys have "map fst (bill_of pdf) = map fst process_pdf_fields"
      by simp
    with True ce show ?thesis
      by (simp add: process_pdf_data process_pdf_fields_keys)
  next
    case False
    then show ?thesis
      by (simp add: process_pdf_data)
  qed
qed

theorem process_pdf_failure_record_witness:
  "fst (process_pdf corrupt_pdf one_bill) = False
   \<and> \<not> readable corrupt_pdf
   \<and> close_error corrupt_pdf = None
   \<and> data (snd (process_pdf corrupt_pdf one_bill)) = [[(''account_number'', PStr ''1'')]]"
  using process_pdf_failure_record [of corrupt_pdf one_bill]
  by (simp add: process_pdf_succeeds_iff processable_def readable_def corrupt_pdf_def one_bill_def)

text \<open>
  The claim C9 as it is stated fails.  The append and \<^verbatim>\<open>return True\<close> are inside the
  \<^verbatim>\<open>with\<close> block, so the document is closed after the record is appended; when
  closing raises, the handler prints the error and returns \<^verbatim>\<open>False\<close>, and the record
  stays in the list.
\<close>

theorem close_failure_keeps_record:
  "fst (process_pdf close_fails_pdf one_bill) = False
   \<and> data one_bill = [[(''account_number'', PStr ''1'')]]
   \<and> data (snd (process_pdf close_fails_pdf one_bill))
       = [[(''account_number'', PStr ''1'')], bill_of close_fails_pdf]
   \<and> length (bill_of close_fails_pdf) = 12"
proof -
  have r: "readable close_fails_pdf"
    by (simp add: readable_def close_fails_pdf_def)
  have "\<not> processable close_fails_pdf"
    by (simp add: processable_def close_fails_pdf_def)
  then have f: "fst (process_pdf close_fails_pdf one_bill) = False"
    by (simp add: process_pdf_succeeds_iff)
  from r obtain d where
    "data (snd (process_pdf close_fails_pdf one_bill)) = data one_bill @ [d]" and
    keys: "map fst d = map fst process_pdf_fields"
    using process_pdf_record by blast
  with r have "d = bill_of close_fails_pdf"
    by (simp add: process_pdf_data)
  with keys have "length (map fst (bill_of close_fails_pdf)) = 12"
    by (simp add: process_pdf_fields_keys)
  then have "length (bill_of close_fails_pdf) = 12"
    by simp
  with f r show ?thesis
    by (simp add: process_pdf_data one_bill_def)
qed

text \<open>
  Claim C10.  If the text of any page of a document is \<^verbatim>\<open>None\<close>, processing the
  document fails and appends no record, whatever the other pages yield.
\<close>

theorem page_without_text_fails:
  "opened pdf = Inr pages \<and> PageNone \<in> set pages \<longrightarrow>
     fst (process_pdf pdf st) = False \<and> data (snd (process_pdf pdf st)) = data st"
proof
  assume h: "opened pdf = Inr pages \<and> PageNone \<in> set pages"
  then obtain e where "document_text pdf = Inl e"
    using document_text_page_none by blast
  then have "\<not> readable pdf"
    using document_text_readable [of pdf] by auto
  then show "fst (process_pdf pdf st) = False \<and> data (snd (process_pdf pdf st)) = data st"
    by (simp add: process_pdf_succeeds_iff process_pdf_data processable_def)
qed

theorem page_without_text_fails_witness:
  "opened page_none_pdf = Inr [PageText ''YOUR ACCOUNT NO 1'', PageNone, PageText ''x'']
   \<and> PageNone \<in> set [PageText ''YOUR ACCOUNT NO 1'', PageNone, PageText ''x'']
   \<and> fst (process_pdf page_none_pdf one_bill) = False
   \<and> data (snd (process_pdf page_none_pdf one_bill)) = data one_bill"
  using page_without_text_fails
    [of page_none_pdf "[PageText ''YOUR ACCOUNT NO 1'', PageNone, PageText ''x'']" one_bill]
  by (simp add: page_none_pdf_def)

text \<open>
  Claim C6.  With an empty record list, \<^verbatim>\<open>export_to_csv\<close> returns \<^verbatim>\<open>False\<close>, prints
  the notice \<^verbatim>\<open>No data to export\<close> and writes no file.
\<close>

theorem export_nothing:
  "data st = [] \<longrightarrow>
     fst (export_to_csv ev base_output_path st) = False
     \<and> files (snd (export_to_csv ev base_output_path st)) = files st
     \<and> stdout (snd (export_to_csv ev base_output_path st)) = stdout st @ [''No data to export'']"
  by (simp add: export_to_csv_def print_def)

theorem export_nothing_witness:
  "data init = []
   \<and> fst (export_to_csv (run_env noon) ''eskom_bills_processed.csv'' init) = False
   \<and> files (snd (export_to_csv (run_env noon) ''eskom_bills_processed.csv'' init)) = Map.empty
   \<and> stdout (snd (export_to_csv (run_env noon) ''eskom_bills_processed.csv'' init))
       = [''No data to export'']"
  using export_nothing [of init "run_env noon" "''eskom_bills_processed.csv''"]
  by (simp add: init_def)

text \<open>
  Claim C5.  \<^verbatim>\<open>process_pdf\<close> succeeds exactly on the files that open, whose pages all
  give text and that close without error; every other file makes it print one error line
  and return \<^verbatim>\<open>False\<close>, whether the exception came from opening, from a page or from
  leaving the \<^verbatim>\<open>with\<close> block.  The loop of \<^verbatim>\<open>process_directory\<close> goes through every
  file: it counts the successes, keeps the records in the order of the files, and the
  error line of every failing file is in the output.  With four files, three that succeed
  and one that cannot be read, in any order, the batch has three records and reports
  three successes.
\<close>

theorem batch_continues_past_failures:
  "fst (process_pdf pdf st) = processable pdf
   \<and> fst (process_files pdfs 0 st) = length (filter processable pdfs)
   \<and> data (process_directory pdfs st) = data st @ map bill_of (filter readable pdfs)
   \<and> (\<forall>q \<in> set pdfs. \<not> processable q \<longrightarrow>
         (\<exists>e. error_line q e \<in> set (stdout (process_directory pdfs st))))
   \<and> (length pdfs = 4 \<and> length (filter processable pdfs) = 3 \<and>
      length (filter (\<lambda>q. \<not> readable q) pdfs) = 1 \<longrightarrow>
         length (data (process_directory pdfs init)) = 3 \<and>
         last (stdout (process_directory pdfs init)) = ''Successfully processed 3 PDF files'')"
proof -
  have a: "fst (process_pdf pdf st) = processable pdf"
    by (rule process_pdf_succeeds_iff)
  have b: "fst (process_files pdfs 0 st) = length (filter processable pdfs)"
    using process_files_count_data [of pdfs 0 st] by simp
  have c: "data (process_directory pdfs st) = data st @ map bill_of (filter readable pdfs)"
    by (rule process_directory_data)
  have d: "\<forall>q \<in> set pdfs. \<not> processable q \<longrightarrow>
         (\<exists>e. error_line q e \<in> set (stdout (process_directory pdfs st)))"
    using process_files_logs_failure [of _ pdfs 0 st] by (auto simp: process_directory_stdout)
  have e: "length pdfs = 4 \<and> length (filter processable pdfs) = 3 \<and>
      length (filter (\<lambda>q. \<not> readable q) pdfs) = 1 \<longrightarrow>
         length (data (process_directory pdfs init)) = 3 \<and>
         last (stdout (process_directory pdfs init)) = ''Successfully processed 3 PDF files''"
  proof
    assume h: "length pdfs = 4 \<and> length (filter processable pdfs) = 3 \<and>
      length (filter (\<lambda>q. \<not> readable q) pdfs) = 1"
    have "length (filter readable pdfs) + length (filter (\<lambda>q. \<not> readable q) pdfs) = length pdfs"
      by (rule sum_length_filter_compl)
    with h have "length (filter readable pdfs) = 3"
      by simp
    with h show "length (data (process_directory pdfs init)) = 3 \<and>
         last (stdout (process_directory pdfs init)) = ''Successfully processed 3 PDF files''"
      by (simp add: process_directory_data process_directory_stdout init_def str_nat_3)
  qed
  from a b c d e show ?thesis by blast
qed

theorem batch_continues_past_failures_witness:
  "length four_files = 4
   \<and> length (filter processable four_files) = 3
   \<and> length (filter (\<lambda>q. \<not> readable q) four_files) = 1
   \<and> length (data (process_directory four_files init)) = 3
   \<and> last (stdout (process_directory four_files init)) = ''Successfully processed 3 PDF files''
   \<and> (\<exists>e. error_line corrupt_pdf e \<in> set (stdout (process_directory four_files init)))"
  using batch_continues_past_failures [of corrupt_pdf init four_files]
  by (simp add: four_files_def processable_def readable_def text_pdf_def corrupt_pdf_def init_def)

text \<open>
  Claim C1, as amended.  Every record \<^verbatim>\<open>process_pdf\<close> appends (it then returns
  \<^verbatim>\<open>True\<close>, or \<^verbatim>\<open>False\<close> when closing the document raised) has exactly the twelve
  keys of the literal in \<^verbatim>\<open>process_pdf\<close>, once each and in that order (there is no
  \<^verbatim>\<open>reading_type\<close>).  A textual field holds what \<^verbatim>\<open>extract_value\<close> returns, so
  \<^verbatim>\<open>None\<close> when the pattern has no match; a numeric field holds a float, which is 0.0 when
  the pattern has no match and when the matched text does not parse.
\<close>

theorem appended_record_shape:
  "fst (process_pdf pdf st) = True \<or> data (snd (process_pdf pdf st)) \<noteq> data st \<longrightarrow>
     (\<exists>d t. data (snd (process_pdf pdf st)) = data st @ [d] \<and> document_text pdf = Inr t \<and>
        map fst d =
          [''account_number'', ''billing_date'', ''invoice_number'', ''account_month'',
           ''due_date'', ''customer_name'', ''opening_reading'', ''closing_reading'',
           ''consumption'', ''total_due'', ''network_charge'', ''energy_charge''] \<and>
        (\<forall>(k, knd, p) \<in> set process_pdf_fields.
           \<exists>v. extract_value t p = Inr v \<and>
             (knd = Textual \<longrightarrow>
                map_of d k = Some (opt_str v) \<and> (v = None \<longrightarrow> map_of d k = Some PNone)) \<and>
             (knd = Numeric \<longrightarrow>
                (\<exists>f. map_of d k = Some (PFloat f)) \<and>
                (v = None \<longrightarrow> map_of d k = Some (PFloat (Finite 0))) \<and>
                (\<forall>s. v = Some s \<and> (\<exists>e. float_of_str (remove_commas s) = Inl e) \<longrightarrow>
                     map_of d k = Some (PFloat (Finite 0))))))"
  (is "_ \<longrightarrow> (\<exists>d t. ?P d t)")
proof
  assume "fst (process_pdf pdf st) = True \<or> data (snd (process_pdf pdf st)) \<noteq> data st"
  then have "readable pdf"
    by (rule appended_readable)
  then obtain d t where
    d: "data (snd (process_pdf pdf st)) = data st @ [d]" and
    t: "document_text pdf = Inr t" and
    keys: "map fst d = map fst process_pdf_fields" and
    vals: "\<forall>(k, knd, p) \<in> set process_pdf_fields.
              \<exists>v. map_of d k = Some v \<and> (\<exists>w. field_value t knd p = (w, Inr v))"
    using process_pdf_record by blast
  have "\<exists>v. extract_value t p = Inr v \<and>
             (knd = Textual \<longrightarrow>
                map_of d k = Some (opt_str v) \<and> (v = None \<longrightarrow> map_of d k = Some PNone)) \<and>
             (knd = Numeric \<longrightarrow>
                (\<exists>f. map_of d k = Some (PFloat f)) \<and>
                (v = None \<longrightarrow> map_of d k = Some (PFloat (Finite 0))) \<and>
                (\<forall>s. v = Some s \<and> (\<exists>e. float_of_str (remove_commas s) = Inl e) \<longrightarrow>
                     map_of d k = Some (PFloat (Finite 0))))"
    if mem: "(k, knd, p) \<in> set process_pdf_fields" for k knd p
  proof -
    from vals mem obtain v w where
      m: "map_of d k = Some v" and fv: "field_value t knd p = (w, Inr v)"
      by blast
    show ?thesis
    proof (cases knd)
      case Textual
      with fv obtain x where "extract_value t p = Inr x" and "v = opt_str x"
        using field_value_textual by blast
      with m Textual show ?thesis by (auto simp: opt_str_def)
    next
      case Numeric
      with fv obtain x f where
        x: "extract_value t p = Inr x" and c: "clean_numeric_value x = (w, Inr f)" and
        v: "v = PFloat f"
        using field_value_numeric by blast
      from c have "x = None \<longrightarrow> f = Finite 0"
        by (auto dest: clean_numeric_value_absent)
      moreover from c
      have "\<forall>s. x = Some s \<and> (\<exists>e. float_of_str (remove_commas s) = Inl e) \<longrightarrow> f = Finite 0"
        by (auto dest: clean_numeric_value_unparseable)
      ultimately show ?thesis using m x v Numeric by auto
    qed
  qed
  then have "\<forall>(k, knd, p) \<in> set process_pdf_fields.
           \<exists>v. extract_value t p = Inr v \<and>
             (knd = Textual \<longrightarrow>
                map_of d k = Some (opt_str v) \<and> (v = None \<longrightarrow> map_of d k = Some PNone)) \<and>
             (knd = Numeric \<longrightarrow>
                (\<exists>f. map_of d k = Some (PFloat f)) \<and>
                (v = None \<longrightarrow> map_of d k = Some (PFloat (Finite 0))) \<and>
                (\<forall>s. v = Some s \<and> (\<exists>e. float_of_str (remove_commas s) = Inl e) \<longrightarrow>
                     map_of d k = Some (PFloat (Finite 0))))"
    by blast
  with d t keys show "\<exists>d t. ?P d t"
    unfolding process_pdf_fields_keys [symmetric] by blast
qed

lemma sample_readable: "readable sample_pdf"
  by (simp add: sample_pdf_def text_pdf_def readable_def)

lemma sample_processable: "processable sample_pdf"
  by (simp add: sample_pdf_def text_pdf_def readable_def processable_def)

theorem appended_record_shape_witness:
  "fst (process_pdf sample_pdf init) = True
   \<and> (\<exists>d. data (snd (process_pdf sample_pdf init)) = [d]
          \<and> map_of d ''account_number'' = Some PNone
          \<and> map_of d ''total_due'' = Some (PFloat (Finite 0)))"
proof -
  have ok: "fst (process_pdf sample_pdf init) = True"
    using sample_processable by (simp add: process_pdf_succeeds_iff)
  with appended_record_shape [of sample_pdf init] obtain d t where
    d: "data (snd (process_pdf sample_pdf init)) = data init @ [d]" and
    t: "document_text sample_pdf = Inr t" and
    vals: "\<forall>(k, knd, p) \<in> set process_pdf_fields.
           \<exists>v. extract_value t p = Inr v \<and>
             (knd = Textual \<longrightarrow>
                map_of d k = Some (opt_str v) \<and> (v = None \<longrightarrow> map_of d k = Some PNone)) \<and>
             (knd = Numeric \<longrightarrow>
                (\<exists>f. map_of d k = Some (PFloat f)) \<and>
                (v = None \<longrightarrow> map_of d k = Some (PFloat (Finite 0))) \<and>
                (\<forall>s. v = Some s \<and> (\<exists>e. float_of_str (remove_commas s) = Inl e) \<longrightarrow>
                     map_of d k = Some (PFloat (Finite 0))))"
    by blast
  from t have t': "t = ''READING TYPE: ACTUAL TOTAL AMOUNT DUE R 1.2.3''"
    by (simp add: sample_text)
  have "(''account_number'', Textual, pat_account_number) \<in> set process_pdf_fields"
    by (simp add: process_pdf_fields_def)
  with vals have a: "map_of d ''account_number'' = Some PNone"
    using sample_account_number t' by fastforce
  have "(''total_due'', Numeric, pat_total_due) \<in> set process_pdf_fields"
    by (simp add: process_pdf_fields_def)
  with vals have b: "map_of d ''total_due'' = Some (PFloat (Finite 0))"
    using sample_total_due float_1_2_3 t' by (fastforce simp: remove_commas_def)
  from ok d a b show ?thesis by (simp add: init_def)
qed

text \<open>
  The claim C1 as it is stated fails: the record of a document that even contains a
  reading type has no \<^verbatim>\<open>reading_type\<close> entry.
\<close>

theorem record_lacks_reading_type:
  "fst (process_pdf sample_pdf init) = True
   \<and> map_of (last (data (snd (process_pdf sample_pdf init)))) ''reading_type'' = None"
proof -
  have ok: "fst (process_pdf sample_pdf init) = True"
    using sample_processable by (simp add: process_pdf_succeeds_iff)
  from sample_readable obtain d where
    d: "data (snd (process_pdf sample_pdf init)) = data init @ [d]" and
    keys: "map fst d = map fst process_pdf_fields"
    using process_pdf_record by blast
  have "''reading_type'' \<notin> set (map fst d)"
    unfolding keys process_pdf_fields_keys by simp
  then have "map_of d ''reading_type'' = None"
    by (simp add: map_of_eq_None_iff)
  with ok d show ?thesis by simp
qed

section \<open>Properties of the export\<close>

lemma py_ord_digit: "d < 10 \<Longrightarrow> py_ord (char_of (48 + d)) = 48 + d"
  by (simp add: py_ord_def)

lemma str_nat_digits: "c \<in> set (str_nat n) \<Longrightarrow> is_digit c"
proof (induction n rule: str_nat.induct)
  case (1 n)
  show ?case
  proof (cases "n < 10")
    case True
    with "1.prems" have "c = char_of (48 + n)" by (simp add: str_nat.simps)
    with True show ?thesis by (simp add: is_digit_def between_def py_ord_digit)
  next
    case False
    with "1.prems" have "c \<in> set (str_nat (n div 10)) \<or> c = char_of (48 + n mod 10)"
      by (subst (asm) str_nat.simps) auto
    then show ?thesis
    proof
      assume "c \<in> set (str_nat (n div 10))"
      with False "1.IH" show ?thesis by simp
    next
      assume "c = char_of (48 + n mod 10)"
      then show ?thesis by (simp add: is_digit_def between_def py_ord_digit)
    qed
  qed
qed

lemma str_nat_length: "n < 10 ^ w \<Longrightarrow> 0 < w \<Longrightarrow> length (str_nat n) \<le> w"
proof (induction n arbitrary: w rule: str_nat.induct)
  case (1 n)
  show ?case
  proof (cases "n < 10")
    case True
    with "1.prems" show ?thesis by (simp add: str_nat.simps)
  next
    case False
    with "1.prems" have w: "1 < w" by (cases "w = 1") auto
    then obtain v where v: "w = Suc v" and v0: "0 < v" by (cases w) auto
    from "1.prems"(1) v have "n div 10 < 10 ^ v"
      by (simp add: less_mult_imp_div_less mult.commute)
    with "1.IH" [OF False _ v0] have "length (str_nat (n div 10)) \<le> v" by simp
    with False v show ?thesis by (subst str_nat.simps) simp
  qed
qed

lemma dec_val_snoc: "dec_val (s @ [c]) = 10 * dec_val s + (py_ord c - 48)"
  by (simp add: dec_val_def)

lemma dec_val_str_nat: "dec_val (str_nat n) = n"
proof (induction n rule: str_nat.induct)
  case (1 n)
  show ?case
  proof (cases "n < 10")
    case True
    then show ?thesis by (simp add: str_nat.simps dec_val_def py_ord_digit)
  next
    case False
    with "1.IH" have "dec_val (str_nat (n div 10)) = n div 10" by simp
    with False show ?thesis
      by (subst str_nat.simps) (simp add: dec_val_snoc py_ord_digit)
  qed
qed

lemma dec_val_zeros: "dec_val (replicate k (CHR ''0'') @ s) = dec_val s"
proof -
  have "foldl (\<lambda>a c. 10 * a + (py_ord c - 48)) 0 (replicate k (CHR ''0'')) = 0"
    by (induction k) (simp_all add: py_ord_def)
  then show ?thesis by (simp add: dec_val_def)
qed

lemma dec_val_pad: "dec_val (pad w n) = n"
  by (simp add: pad_def dec_val_zeros dec_val_str_nat)

lemma length_pad: "n < 10 ^ w \<Longrightarrow> 0 < w \<Longrightarrow> length (pad w n) = w"
  using str_nat_length [of n w] by (simp add: pad_def)

lemma pad_digits: "c \<in> set (pad w n) \<Longrightarrow> is_digit c"
  by (auto simp: pad_def is_digit_def between_def py_ord_def dest: str_nat_digits)

lemma pad_inject:
  assumes "pad w n = pad w m"
  shows "n = m"
proof -
  from assms have "dec_val (pad w n) = dec_val (pad w m)" by simp
  then show ?thesis by (simp add: dec_val_pad)
qed

lemma strftime_lengths:
  assumes "valid_datetime t"
  shows "length (pad 4 (year t)) = 4" and "length (pad 2 (month t)) = 2"
    and "length (pad 2 (day t)) = 2" and "length (pad 2 (hour t)) = 2"
    and "length (pad 2 (minute t)) = 2" and "length (pad 2 (second t)) = 2"
  using assms by (simp_all add: valid_datetime_def length_pad)

lemma length_strftime: "valid_datetime t \<Longrightarrow> length (strftime t) = 15"
  by (simp add: strftime_def strftime_lengths)

lemma strftime_eq_iff:
  assumes "valid_datetime t" and "valid_datetime u"
  shows "(strftime t = strftime u) = same_second t u"
proof
  assume "same_second t u"
  then show "strftime t = strftime u" by (simp add: same_second_def strftime_def)
next
  assume e: "strftime t = strftime u"
  note lt = strftime_lengths [OF assms(1)] and lu = strftime_lengths [OF assms(2)]
  from e have "pad 4 (year t) = pad 4 (year u) \<and> pad 2 (month t) = pad 2 (month u) \<and>
      pad 2 (day t) = pad 2 (day u) \<and> pad 2 (hour t) = pad 2 (hour u) \<and>
      pad 2 (minute t) = pad 2 (minute u) \<and> pad 2 (second t) = pad 2 (second u)"
    unfolding strftime_def by (simp add: append_eq_append_conv lt lu)
  then show "same_second t u"
    by (auto simp: same_second_def dest: pad_inject)
qed

lemma strftime_format:
  assumes "valid_datetime t" and "i < 15"
  shows "if i = 8 then strftime t ! i = CHR ''_'' else is_digit (strftime t ! i)"
proof -
  define ds where "ds = pad 4 (year t) @ pad 2 (month t) @ pad 2 (day t)"
  define hs where "hs = pad 2 (hour t) @ pad 2 (minute t) @ pad 2 (second t)"
  have s: "strftime t = ds @ CHR ''_'' # hs"
    by (simp add: strftime_def ds_def hs_def)
  have lds: "length ds = 8" and lhs: "length hs = 6"
    using strftime_lengths [OF assms(1)] by (simp_all add: ds_def hs_def)
  have dd: "\<forall>c \<in> set ds. is_digit c" and dh: "\<forall>c \<in> set hs. is_digit c"
    by (auto simp: ds_def hs_def dest: pad_digits)
  show ?thesis
  proof (cases "i < 8")
    case True
    with lds dd have "is_digit (ds ! i)" by simp
    with True lds s show ?thesis by (simp add: nth_append)
  next
    case False
    show ?thesis
    proof (cases "i = 8")
      case True
      with lds s show ?thesis by (simp add: nth_append)
    next
      case False
      with \<open>\<not> i < 8\<close> assms(2) lhs have "i - 9 < length hs" by simp
      with dh have "is_digit (hs ! (i - 9))" by simp
      moreover from False \<open>\<not> i < 8\<close> lds s have "strftime t ! i = hs ! (i - 9)"
        by (simp add: nth_append nth_Cons')
      ultimately show ?thesis using False by simp
    qed
  qed
qed

lemma splitext_append: "splitext ss p = (stem, ext) \<Longrightarrow> stem @ ext = p"
  by (auto simp: splitext_def Let_def split: if_splits)

lemma output_path_eq_iff:
  assumes "valid_datetime (now ev)" and "valid_datetime (now ev')" and "seps ev' = seps ev"
  shows "(output_path ev base = output_path ev' base) = same_second (now ev) (now ev')"
proof -
  obtain stem ext where s: "splitext (seps ev) base = (stem, ext)"
    by (cases "splitext (seps ev) base")
  with assms(3) show ?thesis
    by (simp add: output_path_def strftime_eq_iff [OF assms(1,2), symmetric])
qed

lemma export_writes_one_path:
  "q \<noteq> output_path ev base \<Longrightarrow> files (snd (export_to_csv ev base st)) q = files st q"
  by (simp add: export_to_csv_def print_def Let_def split: option.splits)

lemma strftime_noon: "strftime noon = ''20240305_120000''"
  by (simp add: strftime_def pad_def noon_def str_nat.simps char_of_def bit_Suc_0_iff)

lemma strftime_noon_later: "strftime noon_later = ''20240305_120000''"
  by (simp add: strftime_def pad_def noon_later_def str_nat.simps char_of_def bit_Suc_0_iff)

lemma splitext_bills: "splitext ''/'' ''out/bills.csv'' = (''out/bills'', ''.csv'')"
  by (simp add: splitext_def)

lemma output_path_noon: "output_path (run_env noon) ''out/bills.csv'' = ''out/bills_20240305_120000.csv''"
  by (simp add: output_path_def run_env_def splitext_bills strftime_noon)

lemma output_path_noon_later:
  "output_path (run_env noon_later) ''out/bills.csv'' = ''out/bills_20240305_120000.csv''"
  by (simp add: output_path_def run_env_def splitext_bills strftime_noon_later)

lemma write_error_run_env: "write_error (run_env t) p = None"
  by (simp add: run_env_def)

text \<open>
  What the code does ensure for the output path.  It is the stem of the base path, an
  underscore, the time stamp and the extension of the base path; for a valid clock
  reading the time stamp has the form \<^verbatim>\<open>YYYYMMDD_HHMMSS\<close>.  Two runs on the same base
  path write to the same path exactly when their clock readings agree up to the second,
  and an export changes no file but the one at its output path.
\<close>

theorem output_path_timestamped:
  "(\<exists>stem ext. splitext (seps ev) base = (stem, ext) \<and> stem @ ext = base \<and>
       output_path ev base = stem @ ''_'' @ strftime (now ev) @ ext)
   \<and> (valid_datetime (now ev) \<longrightarrow>
         length (strftime (now ev)) = 15 \<and>
         (\<forall>i < 15. if i = 8 then strftime (now ev) ! i = CHR ''_''
                    else is_digit (strftime (now ev) ! i)))
   \<and> (valid_datetime (now ev) \<and> valid_datetime (now ev') \<and> seps ev' = seps ev \<longrightarrow>
         (output_path ev base = output_path ev' base) = same_second (now ev) (now ev'))
   \<and> (\<forall>q. q \<noteq> output_path ev base \<longrightarrow>
         files (snd (export_to_csv ev base st)) q = files st q)"
proof -
  obtain stem ext where s: "splitext (seps ev) base = (stem, ext)"
    by (cases "splitext (seps ev) base")
  then have a: "\<exists>stem ext. splitext (seps ev) base = (stem, ext) \<and> stem @ ext = base \<and>
       output_path ev base = stem @ ''_'' @ strftime (now ev) @ ext"
    by (simp add: output_path_def splitext_append)
  have b: "valid_datetime (now ev) \<longrightarrow>
         length (strftime (now ev)) = 15 \<and>
         (\<forall>i < 15. if i = 8 then strftime (now ev) ! i = CHR ''_''
                    else is_digit (strftime (now ev) ! i))"
    using strftime_format [of "now ev"] by (simp add: length_strftime)
  have c: "valid_datetime (now ev) \<and> valid_datetime (now ev') \<and> seps ev' = seps ev \<longrightarrow>
         (output_path ev base = output_path ev' base) = same_second (now ev) (now ev')"
    by (simp add: output_path_eq_iff)
  have d: "\<forall>q. q \<noteq> output_path ev base \<longrightarrow>
         files (snd (export_to_csv ev base st)) q = files st q"
    by (simp add: export_writes_one_path)
  from a b c d show ?thesis by blast
qed

theorem output_path_timestamped_witness:
  "valid_datetime (now (run_env noon)) \<and> valid_datetime (now (run_env midnight))
   \<and> seps (run_env midnight) = seps (run_env noon)
   \<and> \<not> same_second noon midnight
   \<and> output_path (run_env noon) ''out/bills.csv'' \<noteq> output_path (run_env midnight) ''out/bills.csv''
   \<and> length (strftime noon) = 15
   \<and> files (snd (export_to_csv (run_env midnight) ''out/bills.csv'' second_run))
        (output_path (run_env noon) ''out/bills.csv'')
      = files second_run (output_path (run_env noon) ''out/bills.csv'')"
  using output_path_timestamped [of "run_env noon" "''out/bills.csv''" "run_env midnight" one_bill]
    output_path_timestamped [of "run_env midnight" "''out/bills.csv''" "run_env noon" second_run]
  by (simp add: run_env_def valid_datetime_def noon_def midnight_def same_second_def)

text \<open>
  Claim C7.  The comment in \<^verbatim>\<open>export_to_csv\<close> (\<^verbatim>\<open>Generate a unique filename with timestamp\<close>)
  and its docstring (\<^verbatim>\<open>unique filename\<close>) promise a name no other run has;
  the time stamp that makes the name has a resolution of one second and nothing else
  tells two runs apart.  Two consecutive runs on the base path \<^verbatim>\<open>out/bills.csv\<close>, at
  12:00:00.1 and at 12:00:00.9 of the same day, both get the name
  \<^verbatim>\<open>out/bills_20240305_120000.csv\<close>, and the second export replaces the file the first
  one wrote.
\<close>

theorem same_second_overwrites:
  "valid_datetime noon \<and> valid_datetime noon_later \<and> noon \<noteq> noon_later
   \<and> output_path (run_env noon) ''out/bills.csv'' = ''out/bills_20240305_120000.csv''
   \<and> output_path (run_env noon_later) ''out/bills.csv'' = ''out/bills_20240305_120000.csv''
   \<and> files second_run ''out/bills_20240305_120000.csv'' = Some [[(''account_number'', PStr ''1'')]]
   \<and> fst (export_to_csv (run_env noon_later) ''out/bills.csv'' second_run) = True
   \<and> files (snd (export_to_csv (run_env noon_later) ''out/bills.csv'' second_run))
        ''out/bills_20240305_120000.csv'' = Some [[(''account_number'', PStr ''2'')]]"
proof -
  have v: "valid_datetime noon \<and> valid_datetime noon_later \<and> noon \<noteq> noon_later"
    by (simp add: valid_datetime_def noon_def noon_later_def)
  have f1: "files second_run ''out/bills_20240305_120000.csv'' = Some [[(''account_number'', PStr ''1'')]]"
    by (simp add: second_run_def export_to_csv_def output_path_noon one_bill_def print_def
        fillna_def numeric_columns_def write_error_run_env Let_def)
  have d2: "data second_run = [[(''account_number'', PStr ''2'')]]"
    by (simp add: second_run_def)
  have f2: "fst (export_to_csv (run_env noon_later) ''out/bills.csv'' second_run) = True \<and>
    files (snd (export_to_csv (run_env noon_later) ''out/bills.csv'' second_run))
        ''out/bills_20240305_120000.csv'' = Some [[(''account_number'', PStr ''2'')]]"
    by (simp add: export_to_csv_def output_path_noon_later d2 print_def
        fillna_def numeric_columns_def write_error_run_env Let_def)
  from v f1 f2 output_path_noon output_path_noon_later show ?thesis by blast
qed

end
